theory Spec2Isabelle
  imports Complex_Main
begin

section \<open>JavaScript numbers and number formatting\<close>

text \<open>
  The numbers of \<^verbatim>\<open>script.js\<close> are IEEE 754 doubles. A finite double is modelled by the
  rational it denotes, so \<open>jsnum\<close> has the finite values, the two infinities and NaN, and
  every arithmetic operation rounds its exact result to the nearest double, ties to the
  even significand. The two zeros are not told apart: the program shows a zero only
  through \<^verbatim>\<open>toFixed\<close> and \<^verbatim>\<open>JSON.stringify\<close>, which print both as \<^verbatim>\<open>0\<close>, and its
  divisors (a price reached by additions from \<^verbatim>\<open>9138.90\<close>, and a sum of two products of
  draws) are never the negative zero, because a sum is the negative zero only when both
  of its terms are.
\<close>

datatype jsnum = Fin rat | PosInf | NegInf | NaN

text \<open>\<open>pow2 e\<close> is \<open>2\<^sup>e\<close> for an integer \<open>e\<close>.\<close>

definition pow2 :: "int \<Rightarrow> rat" where
  "pow2 e = (if 0 \<le> e then 2 ^ nat e else 1 / 2 ^ nat (- e))"

text \<open>
  The exponent of a positive number \<open>x\<close>: the \<open>e\<close> with \<open>2\<^sup>e \<le> x < 2\<^sup>e\<^sup>+\<^sup>1\<close>, found by halving
  or doubling \<open>x\<close>, and kept between \<open>-1022\<close>, the exponent of the subnormal numbers, and
  \<open>1024\<close>, where every number overflows.
\<close>

fun binadeUp :: "nat \<Rightarrow> rat \<Rightarrow> nat" where
  "binadeUp n x = (if n = 0 \<or> x < 2 then 0 else Suc (binadeUp (n - 1) (x / 2)))"

fun binadeDown :: "nat \<Rightarrow> rat \<Rightarrow> nat" where
  "binadeDown n x = (if n = 0 \<or> 1 \<le> x then 0 else Suc (binadeDown (n - 1) (x * 2)))"

declare binadeUp.simps [simp del]
declare binadeDown.simps [simp del]

definition binade :: "rat \<Rightarrow> int" where
  "binade x = (if 1 \<le> x then int (binadeUp 1024 x) else - int (binadeDown 1022 x))"

text \<open>The integer nearest to \<open>y\<close>, the even one of two.\<close>

definition roundEven :: "rat \<Rightarrow> int" where
  "roundEven y =
     (if y - of_int \<lfloor>y\<rfloor> < 1 / 2 then \<lfloor>y\<rfloor>
      else if 1 / 2 < y - of_int \<lfloor>y\<rfloor> then \<lfloor>y\<rfloor> + 1
      else if even \<lfloor>y\<rfloor> then \<lfloor>y\<rfloor> else \<lfloor>y\<rfloor> + 1)"

definition overflow :: "rat \<Rightarrow> bool" where
  "overflow v = (2 ^ 1024 \<le> \<bar>v\<bar>)"

text \<open>
  The double nearest to the exact number \<open>x\<close>: a multiple of \<open>2\<^sup>e\<^sup>-\<^sup>5\<^sup>2\<close> for the exponent
  \<open>e\<close> of \<open>x\<close> (53 significant bits), and an infinity when that multiple has reached
  \<open>2\<^sup>1\<^sup>0\<^sup>2\<^sup>4\<close>.
\<close>

definition rnd :: "rat \<Rightarrow> jsnum" where
  "rnd x =
     (if x = 0 then Fin 0
      else
        (let q = pow2 (binade \<bar>x\<bar> - 52);
             v = of_int (roundEven (x / q)) * q
         in if overflow v then (if 0 < x then PosInf else NegInf) else Fin v))"

text \<open>
  The value of a decimal literal of the source text. The integer literals of the program
  and \<^verbatim>\<open>0.5\<close> are doubles and are written \<open>Fin\<close> (lemma \<open>lit_exact\<close>).
\<close>

definition lit :: "rat \<Rightarrow> jsnum" where
  "lit x = rnd x"

fun fneg :: "jsnum \<Rightarrow> jsnum" where
  "fneg (Fin x) = Fin (- x)"
| "fneg PosInf = NegInf"
| "fneg NegInf = PosInf"
| "fneg NaN = NaN"

text \<open>\<^verbatim>\<open>x + y\<close>, \<^verbatim>\<open>x - y\<close>, \<^verbatim>\<open>x * y\<close> and \<^verbatim>\<open>x / y\<close> on numbers.\<close>

fun fadd :: "jsnum \<Rightarrow> jsnum \<Rightarrow> jsnum" where
  "fadd (Fin x) (Fin y) = rnd (x + y)"
| "fadd (Fin x) PosInf = PosInf"
| "fadd (Fin x) NegInf = NegInf"
| "fadd PosInf (Fin y) = PosInf"
| "fadd PosInf PosInf = PosInf"
| "fadd PosInf NegInf = NaN"
| "fadd NegInf (Fin y) = NegInf"
| "fadd NegInf NegInf = NegInf"
| "fadd NegInf PosInf = NaN"
| "fadd NaN y = NaN"
| "fadd x NaN = NaN"

definition fsub :: "jsnum \<Rightarrow> jsnum \<Rightarrow> jsnum" where
  "fsub x y = fadd x (fneg y)"

definition signed :: "bool \<Rightarrow> jsnum" where
  "signed neg = (if neg then NegInf else PosInf)"

fun fmul :: "jsnum \<Rightarrow> jsnum \<Rightarrow> jsnum" where
  "fmul (Fin x) (Fin y) = rnd (x * y)"
| "fmul (Fin x) PosInf = (if x = 0 then NaN else signed (x < 0))"
| "fmul (Fin x) NegInf = (if x = 0 then NaN else signed (0 < x))"
| "fmul PosInf (Fin y) = (if y = 0 then NaN else signed (y < 0))"
| "fmul NegInf (Fin y) = (if y = 0 then NaN else signed (0 < y))"
| "fmul PosInf PosInf = PosInf"
| "fmul PosInf NegInf = NegInf"
| "fmul NegInf PosInf = NegInf"
| "fmul NegInf NegInf = PosInf"
| "fmul NaN y = NaN"
| "fmul x NaN = NaN"

fun fdiv :: "jsnum \<Rightarrow> jsnum \<Rightarrow> jsnum" where
  "fdiv (Fin x) (Fin y) =
     (if y = 0 then (if x = 0 then NaN else signed (x < 0)) else rnd (x / y))"
| "fdiv (Fin x) PosInf = Fin 0"
| "fdiv (Fin x) NegInf = Fin 0"
| "fdiv PosInf (Fin y) = signed (y < 0)"
| "fdiv NegInf (Fin y) = signed (0 \<le> y)"
| "fdiv PosInf PosInf = NaN"
| "fdiv PosInf NegInf = NaN"
| "fdiv NegInf PosInf = NaN"
| "fdiv NegInf NegInf = NaN"
| "fdiv NaN y = NaN"
| "fdiv x NaN = NaN"

text \<open>\<^verbatim>\<open>Math.floor\<close>.\<close>

fun jsfloor :: "jsnum \<Rightarrow> jsnum" where
  "jsfloor (Fin x) = Fin (of_int \<lfloor>x\<rfloor>)"
| "jsfloor x = x"

text \<open>
  The strings \<^verbatim>\<open>Number.prototype.toFixed\<close> returns, by their content:
  \<open>Decimal neg n f\<close> is the sign (\<^verbatim>\<open>-\<close> when \<open>neg\<close>) followed by the decimal digits of
  \<open>n\<close> with the point before the last \<open>f\<close> of them; \<open>Exponential x\<close> is the
  \<^verbatim>\<open>ToString\<close> of a number of magnitude \<open>10^21\<close> or more; \<open>InfinityStr neg\<close> is
  \<^verbatim>\<open>Infinity\<close> or \<^verbatim>\<open>-Infinity\<close>; \<open>NaNStr\<close> is \<^verbatim>\<open>NaN\<close>.
\<close>

datatype numstr = Decimal bool nat nat | Exponential rat | InfinityStr bool | NaNStr

text \<open>
  \<^verbatim>\<open>x.toFixed(f)\<close> after ECMAScript: a number that is not finite gives its name; a
  negative number gives the sign and is negated; below \<open>10^21\<close> the digits are those of the
  integer \<open>n\<close> with \<open>n / 10^f\<close> nearest to the exact value of the double \<open>x\<close>, the larger
  one of two.
\<close>

fun toFixed :: "nat \<Rightarrow> jsnum \<Rightarrow> numstr" where
  "toFixed f NaN = NaNStr"
| "toFixed f PosInf = InfinityStr False"
| "toFixed f NegInf = InfinityStr True"
| "toFixed f (Fin x) =
     (if 10 ^ 21 \<le> \<bar>x\<bar> then Exponential x
      else Decimal (x < 0) (nat \<lfloor>\<bar>x\<bar> * 10 ^ f + 1 / 2\<rfloor>) f)"

text \<open>A field that holds a number at one time and a string at another.\<close>

datatype jsvalue = NumV jsnum | StrV numstr

text \<open>\<^verbatim>\<open>xs[i]\<close> for a number \<open>i\<close>: \<open>None\<close> is \<^verbatim>\<open>undefined\<close>, which is what an index that
  is not an integer of the array's range gives.\<close>

fun jsindex :: "'a list \<Rightarrow> jsnum \<Rightarrow> 'a option" where
  "jsindex xs (Fin i) =
     (if i = of_int \<lfloor>i\<rfloor> \<and> 0 \<le> i \<and> \<lfloor>i\<rfloor> < int (length xs) then Some (xs ! nat \<lfloor>i\<rfloor>) else None)"
| "jsindex xs i = None"


section \<open>The environment of one callback\<close>

text \<open>
  \<open>mathRandom e k\<close> is what the \<open>k\<close>-th call of \<^verbatim>\<open>Math.random()\<close> returns during the
  callback (counted from 0), a double in \<open>[0, 1)\<close>; \<open>now e\<close> is the instant
  \<^verbatim>\<open>new Date()\<close> reads, in milliseconds, and \<open>daysBefore e i\<close> is the instant
  \<^verbatim>\<open>setDate(getDate() - i)\<close> moves a copy of that date to: the same local time \<open>i\<close>
  calendar days earlier in the time zone of the server. An instant stands for its ISO
  string.
\<close>

type_synonym instant = int

record env =
  mathRandom :: "nat \<Rightarrow> rat"
  now :: instant
  daysBefore :: "nat \<Rightarrow> instant"

definition validRandom :: "env \<Rightarrow> bool" where
  "validRandom e =
     (\<forall>k. 0 \<le> mathRandom e k \<and> mathRandom e k < 1 \<and> rnd (mathRandom e k) = Fin (mathRandom e k))"


section \<open>Data model\<close>

record stamped =
  timestamp :: instant

record point = stamped +
  price :: jsnum

record metrics =
  accuracy :: jsnum
  precision :: jsnum
  recall :: jsnum

text \<open>
  The payload of \<^verbatim>\<open>priceUpdate\<close> has three fields; the snapshot (\<^verbatim>\<open>mockData\<close>,
  \<^verbatim>\<open>currentData\<close>) has the same three and four more.
\<close>

record priceData =
  currentPrice :: jsnum
  priceChange :: jsnum
  priceChangePercent :: jsvalue

record snapshot = priceData +
  dataPoints :: nat
  featureCount :: nat
  historicalPrices :: "point list"
  models :: "(string \<times> metrics) list"

record probs =
  up :: jsvalue
  down :: jsvalue

record prediction = stamped +
  direction :: string
  confidence :: jsnum
  probabilities :: probs
  model :: "string option"


section \<open>The object store\<close>

text \<open>
  Objects that the program hands from one place to another live in a store and are
  named by their address: the snapshot objects, the prediction objects, the payload
  objects of \<^verbatim>\<open>priceUpdate\<close>, the chart points and the arrays of chart points. An
  address is an index into the store; a new object goes to the end. The arrays and
  objects nested in a snapshot or in a prediction (\<^verbatim>\<open>historicalPrices\<close>, \<^verbatim>\<open>models\<close>,
  \<^verbatim>\<open>probabilities\<close>) are held by value inside their owner.
\<close>

type_synonym addr = nat

datatype obj =
    Snapshot snapshot
  | Prediction prediction
  | PriceData priceData
  | Point point
  | Array "addr list"

type_synonym store = "obj list"

definition deref :: "store \<Rightarrow> addr \<Rightarrow> obj option" where
  "deref h a = (if a < length h then Some (h ! a) else None)"

definition alloc :: "store \<Rightarrow> obj \<Rightarrow> addr \<times> store" where
  "alloc h ob = (length h, h @ [ob])"

definition elements :: "store \<Rightarrow> addr \<Rightarrow> addr list" where
  "elements h a = (case deref h a of Some (Array xs) \<Rightarrow> xs | _ \<Rightarrow> [])"

text \<open>\<^verbatim>\<open>push\<close> and \<open>shift\<close> change the array in place; \<^verbatim>\<open>slice()\<close> makes a new array
  of the same elements.\<close>

definition push :: "store \<Rightarrow> addr \<Rightarrow> addr \<Rightarrow> store" where
  "push h a x = h[a := Array (elements h a @ [x])]"

definition shift :: "store \<Rightarrow> addr \<Rightarrow> store" where
  "shift h a = h[a := Array (tl (elements h a))]"

definition slice :: "store \<Rightarrow> addr \<Rightarrow> addr \<times> store" where
  "slice h a = alloc h (Array (elements h a))"


section \<open>JSON\<close>

datatype json =
    JUndefined
  | JSnapshot snapshot
  | JPrediction prediction
  | JPriceData priceData
  | JPoint point
  | JArray "json list"
  | JObject "(string \<times> string) list"

text \<open>\<^verbatim>\<open>JSON.stringify\<close> of the object at an address: the value at that moment.\<close>

definition stringifyElement :: "store \<Rightarrow> addr \<Rightarrow> json" where
  "stringifyElement h a =
     (case deref h a of
        Some (Snapshot d) \<Rightarrow> JSnapshot d
      | Some (Prediction p) \<Rightarrow> JPrediction p
      | Some (PriceData u) \<Rightarrow> JPriceData u
      | Some (Point p) \<Rightarrow> JPoint p
      | _ \<Rightarrow> JUndefined)"

definition stringify :: "store \<Rightarrow> addr \<Rightarrow> json" where
  "stringify h a =
     (case deref h a of
        Some (Array xs) \<Rightarrow> JArray (map (stringifyElement h) xs)
      | _ \<Rightarrow> stringifyElement h a)"


section \<open>The server\<close>

datatype event =
    DataLoaded addr
  | PredictionStarted
  | PredictionComplete addr
  | PriceUpdate addr
  | ChartUpdate addr
  | ErrorEvent string

text \<open>A message \<^verbatim>\<open>{type, data}\<close> on a socket.\<close>

datatype message = Message string json

datatype readyState = CONNECTING | OPEN | CLOSING | CLOSED

record client =
  cid :: nat
  readyState :: readyState

text \<open>
  What the program does that can be seen from outside, in order: an event emitted on the
  dashboard, a message sent to a client, the response to an HTTP request (status and
  body).
\<close>

datatype action =
    Emit event
  | Send nat message
  | Respond nat json

text \<open>
  Who awaits the promise of \<^verbatim>\<open>runPrediction\<close>: nobody (the call in the socket's
  message handler) or the handler of \<^verbatim>\<open>POST /api/predict\<close>, which responds after it.
\<close>

datatype cont = Detached | Responding

text \<open>
  The fields of the dashboard (\<^verbatim>\<open>priceChartData\<close>, \<^verbatim>\<open>currentData\<close>, \<^verbatim>\<open>isLoading\<close>,
  \<^verbatim>\<open>lastPrediction\<close>), the store they point into, the clients of the socket server in
  the order they connected, the prediction timers that have not fired yet, oldest first,
  and the actions so far.
\<close>

record server =
  heap :: store
  priceChartData :: addr
  currentData :: "addr option"
  isLoading :: bool
  lastPrediction :: "addr option"
  clients :: "client list"
  nextClient :: nat
  pending :: "cont list"
  trace :: "action list"

text \<open>\<^verbatim>\<open>new QuantumMLDashboard()\<close> and a socket server without clients.\<close>

definition constructed :: server where
  "constructed =
     \<lparr>heap = [Array []], priceChartData = 0, currentData = None, isLoading = False,
      lastPrediction = None, clients = [], nextClient = 0, pending = [], trace = []\<rparr>"

subsection \<open>Events and their listeners\<close>

text \<open>The four forwarding listeners: every client that is open gets the payload.\<close>

definition sends :: "string \<Rightarrow> json \<Rightarrow> client list \<Rightarrow> action list" where
  "sends ty j cs =
     map (\<lambda>c. Send (cid c) (Message ty j)) (filter (\<lambda>c. readyState c = OPEN) cs)"

definition broadcast :: "string \<Rightarrow> addr \<Rightarrow> server \<Rightarrow> server" where
  "broadcast ty a s = s\<lparr>trace := trace s @ sends ty (stringify (heap s) a) (clients s)\<rparr>"

fun listeners :: "event \<Rightarrow> server \<Rightarrow> server" where
  "listeners (DataLoaded a) s = broadcast ''dataLoaded'' a s"
| "listeners (PredictionComplete a) s = broadcast ''predictionResult'' a s"
| "listeners (PriceUpdate a) s = broadcast ''priceUpdate'' a s"
| "listeners (ChartUpdate a) s = broadcast ''chartUpdate'' a s"
| "listeners PredictionStarted s = s"
| "listeners (ErrorEvent m) s = s"

definition emit :: "event \<Rightarrow> server \<Rightarrow> server" where
  "emit ev s = listeners ev (s\<lparr>trace := trace s @ [Emit ev]\<rparr>)"

definition respond :: "nat \<Rightarrow> json \<Rightarrow> server \<Rightarrow> server" where
  "respond status body s = s\<lparr>trace := trace s @ [Respond status body]\<rparr>"

subsection \<open>The dashboard\<close>

text \<open>The loop runs \<open>i\<close> from 29 down to 0; the call of \<^verbatim>\<open>Math.random()\<close> at \<open>i\<close> is
  call number \<open>29 - i\<close>.\<close>

definition generateHistoricalData :: "env \<Rightarrow> point list" where
  "generateHistoricalData e =
     map (\<lambda>i. \<lparr>timestamp = daysBefore e i,
               price = fadd (Fin 9100)
                         (fmul (fsub (Fin (mathRandom e (29 - i))) (Fin (1 / 2))) (Fin 200))\<rparr>)
       (rev [0..<30])"

definition mockData :: "env \<Rightarrow> snapshot" where
  "mockData e =
     \<lparr>currentPrice = lit (91389 / 10), priceChange = lit (452 / 10),
      priceChangePercent = NumV (Fin (1 / 2)),
      dataPoints = 1261, featureCount = 60,
      historicalPrices = generateHistoricalData e,
      models =
        [(''randomForest'',
          \<lparr>accuracy = lit (5597 / 10000), precision = lit (5573 / 10000), recall = lit (5597 / 10000)\<rparr>),
         (''hybrid'',
          \<lparr>accuracy = lit (5309 / 10000), precision = lit (5160 / 10000), recall = lit (5309 / 10000)\<rparr>),
         (''svm'',
          \<lparr>accuracy = lit (5350 / 10000), precision = lit (2862 / 10000), recall = lit (5350 / 10000)\<rparr>)]\<rparr>"

text \<open>
  \<^verbatim>\<open>loadDashboardData\<close> has no \<^verbatim>\<open>await\<close>: it runs to its end when it is called.
  Nothing in its \<^verbatim>\<open>try\<close> block raises here (the listeners only send to open
  sockets), so the \<^verbatim>\<open>catch\<close> block is not entered and \<^verbatim>\<open>finally\<close> runs after the
  \<^verbatim>\<open>return\<close>. The result is the address of \<^verbatim>\<open>mockData\<close> and the new state.
\<close>

definition loadDashboardData :: "env \<Rightarrow> server \<Rightarrow> addr \<times> server" where
  "loadDashboardData e s =
     (let s1 = s\<lparr>isLoading := True\<rparr>;
          (a, h) = alloc (heap s1) (Snapshot (mockData e));
          s2 = s1\<lparr>heap := h, currentData := Some a\<rparr>;
          s3 = emit (DataLoaded a) s2
      in (a, s3\<lparr>isLoading := False\<rparr>))"

text \<open>The object the timer's callback builds: five calls of \<^verbatim>\<open>Math.random()\<close> in the
  order of the object literal, then the two probabilities replaced by strings.\<close>

definition newPrediction :: "env \<Rightarrow> prediction" where
  "newPrediction e =
     (let prediction =
            \<lparr>timestamp = now e,
             direction = (if 1 / 2 < mathRandom e 0 then ''UP'' else ''DOWN''),
             confidence = fadd (jsfloor (fmul (Fin (mathRandom e 1)) (Fin 30))) (Fin 70),
             probabilities =
               \<lparr>up = NumV (fmul (Fin (mathRandom e 2)) (Fin 100)),
                down = NumV (fmul (Fin (mathRandom e 3)) (Fin 100))\<rparr>,
             model = jsindex [''random_forest'', ''hybrid'', ''svm'']
                       (jsfloor (fmul (Fin (mathRandom e 4)) (Fin 3)))\<rparr>;
          u = fmul (Fin (mathRandom e 2)) (Fin 100);
          d = fmul (Fin (mathRandom e 3)) (Fin 100);
          total = fadd u d;
          prediction1 = prediction\<lparr>probabilities :=
            (probabilities prediction)\<lparr>up := StrV (toFixed 1 (fmul (fdiv u total) (Fin 100)))\<rparr>\<rparr>;
          prediction2 = prediction1\<lparr>probabilities :=
            (probabilities prediction1)\<lparr>down := StrV (toFixed 1 (fmul (fdiv d total) (Fin 100)))\<rparr>\<rparr>
      in prediction2)"

text \<open>The callback of the 2000 ms timer in \<^verbatim>\<open>simulatePrediction\<close>.\<close>

definition simulatePrediction :: "env \<Rightarrow> server \<Rightarrow> addr \<times> server" where
  "simulatePrediction e s =
     (let (a, h) = alloc (heap s) (Prediction (newPrediction e));
          s1 = s\<lparr>heap := h, lastPrediction := Some a\<rparr>
      in (a, emit (PredictionComplete a) s1))"

text \<open>What runs when the promise of \<^verbatim>\<open>runPrediction\<close> is settled.\<close>

fun resume :: "cont \<Rightarrow> server \<Rightarrow> server" where
  "resume Detached s = s"
| "resume Responding s = respond 200 (JObject [(''message'', ''Prediction started'')]) s"

text \<open>
  \<^verbatim>\<open>runPrediction\<close> up to its \<^verbatim>\<open>await\<close>: when the flag is set it returns at once, and
  whoever awaits it goes on; otherwise it sets the flag, emits \<^verbatim>\<open>predictionStarted\<close>
  and starts the timer.
\<close>

definition runPrediction :: "cont \<Rightarrow> server \<Rightarrow> server" where
  "runPrediction k s =
     (if isLoading s then resume k s
      else (emit PredictionStarted (s\<lparr>isLoading := True\<rparr>))\<lparr>pending := pending s @ [k]\<rparr>)"

text \<open>
  The oldest timer fires: its callback, then the rest of \<^verbatim>\<open>runPrediction\<close> (the
  \<^verbatim>\<open>finally\<close> block), then whoever awaited it. The promise is never rejected.
\<close>

definition timeout :: "env \<Rightarrow> server \<Rightarrow> server" where
  "timeout e s =
     (case pending s of
        [] \<Rightarrow> s
      | k # ks \<Rightarrow>
          (let (a, s1) = simulatePrediction e (s\<lparr>pending := ks\<rparr>);
               s2 = s1\<lparr>isLoading := False\<rparr>
           in resume k s2))"

definition simulatePriceUpdate :: "env \<Rightarrow> server \<Rightarrow> server" where
  "simulatePriceUpdate e s =
     (case currentData s of
        None \<Rightarrow> s
      | Some a \<Rightarrow>
          (case deref (heap s) a of
             Some (Snapshot d) \<Rightarrow>
               (let newPrice = fadd (currentPrice d)
                                 (fmul (fsub (Fin (mathRandom e 0)) (Fin (1 / 2))) (Fin 10));
                    change = fsub newPrice (currentPrice d);
                    d' = d\<lparr>currentPrice := newPrice, priceChange := change,
                           priceChangePercent :=
                             StrV (toFixed 2 (fmul (fdiv change (currentPrice d)) (Fin 100)))\<rparr>;
                    (a', h1) = alloc (heap s) (Snapshot d');
                    (pa, h2) = alloc h1 (Point \<lparr>timestamp = now e, price = newPrice\<rparr>);
                    h3 = push h2 (priceChartData s) pa;
                    h4 = (if 30 < length (elements h3 (priceChartData s))
                          then shift h3 (priceChartData s) else h3);
                    (ua, h5) = alloc h4 (PriceData \<lparr>currentPrice = newPrice, priceChange = change,
                                                    priceChangePercent = priceChangePercent d'\<rparr>);
                    s1 = emit (PriceUpdate ua) (s\<lparr>heap := h5, currentData := Some a'\<rparr>);
                    (ca, h6) = slice (heap s1) (priceChartData s1)
                in emit (ChartUpdate ca) (s1\<lparr>heap := h6\<rparr>))
           | _ \<Rightarrow> s))"

subsection \<open>The socket server and the routes\<close>

text \<open>A connection: the socket joins the clients, open, and gets the snapshot if there
  is one.\<close>

definition onConnection :: "server \<Rightarrow> server" where
  "onConnection s =
     (let c = nextClient s;
          s1 = s\<lparr>clients := clients s @ [\<lparr>cid = c, readyState = OPEN\<rparr>], nextClient := Suc c\<rparr>
      in case currentData s1 of
           Some a \<Rightarrow> s1\<lparr>trace := trace s1 @ [Send c (Message ''initialData'' (stringify (heap s1) a))]\<rparr>
         | None \<Rightarrow> s1)"

definition onMessage :: "nat \<Rightarrow> string \<Rightarrow> env \<Rightarrow> server \<Rightarrow> server" where
  "onMessage c text e s =
     (if c \<in> set (map cid (clients s)) then
        (if text = ''getPrediction'' then runPrediction Detached s
         else if text = ''getDashboardData'' then snd (loadDashboardData e s)
         else s)
      else s)"

definition onClosing :: "nat \<Rightarrow> server \<Rightarrow> server" where
  "onClosing c s =
     s\<lparr>clients := map (\<lambda>x. if cid x = c then x\<lparr>readyState := CLOSING\<rparr> else x) (clients s)\<rparr>"

definition onClose :: "nat \<Rightarrow> server \<Rightarrow> server" where
  "onClose c s = s\<lparr>clients := filter (\<lambda>x. cid x \<noteq> c) (clients s)\<rparr>"

definition getDashboard :: "env \<Rightarrow> server \<Rightarrow> server" where
  "getDashboard e s =
     (let (a, s1) = loadDashboardData e s in respond 200 (stringify (heap s1) a) s1)"

definition postPredict :: "server \<Rightarrow> server" where
  "postPredict s = runPrediction Responding s"

definition getLastPrediction :: "server \<Rightarrow> server" where
  "getLastPrediction s =
     (case lastPrediction s of
        Some a \<Rightarrow> respond 200 (stringify (heap s) a) s
      | None \<Rightarrow> respond 404 (JObject [(''error'', ''No prediction available'')]) s)"

subsection \<open>The event loop\<close>

text \<open>
  One callback of the event loop, run to its end with the continuations it settles:
  the load at start-up, a connection, a message of a client, a client that starts to
  close or is gone, the three routes, the 30 s interval and a prediction timer.
\<close>

datatype op =
    Startup env
  | Connection
  | WsMessage nat string env
  | WsClosing nat
  | WsClose nat
  | GetDashboard env
  | PostPredict
  | GetLastPrediction
  | Interval env
  | Timeout env

fun step :: "op \<Rightarrow> server \<Rightarrow> server" where
  "step (Startup e) s = snd (loadDashboardData e s)"
| "step Connection s = onConnection s"
| "step (WsMessage c text e) s = onMessage c text e s"
| "step (WsClosing c) s = onClosing c s"
| "step (WsClose c) s = onClose c s"
| "step (GetDashboard e) s = getDashboard e s"
| "step PostPredict s = postPredict s"
| "step GetLastPrediction s = getLastPrediction s"
| "step (Interval e) s = simulatePriceUpdate e s"
| "step (Timeout e) s = timeout e s"

fun run :: "op list \<Rightarrow> server \<Rightarrow> server" where
  "run [] s = s"
| "run (x # xs) s = run xs (step x s)"

section \<open>Notions the properties are stated with\<close>

subsection \<open>The chart history\<close>

text \<open>
  What \<^verbatim>\<open>push\<close> followed by the conditional \<^verbatim>\<open>shift\<close> leaves of a list that has
  just got a new last entry.
\<close>

definition fifo :: "'a list \<Rightarrow> 'a list" where
  "fifo ys = (if 30 < length ys then tl ys else ys)"

definition lastN :: "nat \<Rightarrow> 'a list \<Rightarrow> 'a list" where
  "lastN n xs = drop (length xs - n) xs"

text \<open>The objects the entries of an array point to, and those of \<^verbatim>\<open>priceChartData\<close>.\<close>

definition chartOf :: "store \<Rightarrow> addr \<Rightarrow> obj option list" where
  "chartOf h c = map (deref h) (elements h c)"

definition chartHistory :: "server \<Rightarrow> obj option list" where
  "chartHistory s = chartOf (heap s) (priceChartData s)"

definition currentSnapshot :: "server \<Rightarrow> obj option" where
  "currentSnapshot s = (case currentData s of None \<Rightarrow> None | Some a \<Rightarrow> deref (heap s) a)"

definition storedPrediction :: "server \<Rightarrow> obj option" where
  "storedPrediction s = (case lastPrediction s of None \<Rightarrow> None | Some a \<Rightarrow> deref (heap s) a)"

subsection \<open>What one price update computes\<close>

text \<open>
  \<open>delta e\<close> is \<^verbatim>\<open>(Math.random() - 0.5) * 10\<close>. Then
  the three objects \<^verbatim>\<open>simulatePriceUpdate\<close> builds from the snapshot \<open>d\<close> it finds: the
  new snapshot (the spread with three fields replaced), the chart point and the payload of
  \<^verbatim>\<open>priceUpdate\<close>; then the store after the update, before and after \<^verbatim>\<open>slice()\<close>.
  Lemma \<open>tick_char\<close> below shows that this is what the function does.
\<close>

definition delta :: "env \<Rightarrow> jsnum" where
  "delta e = fmul (fsub (Fin (mathRandom e 0)) (Fin (1 / 2))) (Fin 10)"

definition tickSnapshot :: "env \<Rightarrow> snapshot \<Rightarrow> snapshot" where
  "tickSnapshot e d =
     d\<lparr>currentPrice := fadd (currentPrice d) (delta e),
       priceChange := fsub (fadd (currentPrice d) (delta e)) (currentPrice d),
       priceChangePercent :=
         StrV (toFixed 2 (fmul (fdiv (fsub (fadd (currentPrice d) (delta e)) (currentPrice d))
                                  (currentPrice d)) (Fin 100)))\<rparr>"

definition tickPoint :: "env \<Rightarrow> snapshot \<Rightarrow> point" where
  "tickPoint e d = \<lparr>timestamp = now e, price = fadd (currentPrice d) (delta e)\<rparr>"

definition tickPayload :: "env \<Rightarrow> snapshot \<Rightarrow> priceData" where
  "tickPayload e d =
     \<lparr>currentPrice = currentPrice (tickSnapshot e d), priceChange = priceChange (tickSnapshot e d),
      priceChangePercent = priceChangePercent (tickSnapshot e d)\<rparr>"

definition tickStore :: "env \<Rightarrow> snapshot \<Rightarrow> addr \<Rightarrow> store \<Rightarrow> store" where
  "tickStore e d c h =
     (let h2 = h @ [Snapshot (tickSnapshot e d), Point (tickPoint e d)];
          h3 = push h2 c (Suc (length h));
          h4 = (if 30 < length (elements h3 c) then shift h3 c else h3)
      in h4 @ [PriceData (tickPayload e d)])"

definition tickStore' :: "env \<Rightarrow> snapshot \<Rightarrow> addr \<Rightarrow> store \<Rightarrow> store" where
  "tickStore' e d c h = tickStore e d c h @ [Array (elements (tickStore e d c h) c)]"

text \<open>The point a callback adds to the chart, if it adds one, and the points a sequence
  of callbacks adds, in order.\<close>

definition tickOf :: "env \<Rightarrow> server \<Rightarrow> point option" where
  "tickOf e s = (case currentSnapshot s of Some (Snapshot d) \<Rightarrow> Some (tickPoint e d) | _ \<Rightarrow> None)"

fun pushedBy :: "op \<Rightarrow> server \<Rightarrow> point list" where
  "pushedBy (Interval e) s = (case tickOf e s of Some p \<Rightarrow> [p] | None \<Rightarrow> [])"
| "pushedBy x s = []"

fun generated :: "op list \<Rightarrow> server \<Rightarrow> point list" where
  "generated [] s = []"
| "generated (x # xs) s = pushedBy x s @ generated xs (step x s)"

definition appendPoint :: "obj option list \<Rightarrow> point \<Rightarrow> obj option list" where
  "appendPoint hs p = fifo (hs @ [Some (Point p)])"

subsection \<open>Well-formed stores\<close>

text \<open>
  The fields of the dashboard point to objects of the right kind: \<^verbatim>\<open>priceChartData\<close>
  to an array of points, \<^verbatim>\<open>currentData\<close> to a snapshot and \<^verbatim>\<open>lastPrediction\<close> to a
  prediction. Every state the server reaches is well-formed (lemma \<open>wf_reachable\<close>).
\<close>

definition wfStore :: "store \<Rightarrow> addr \<Rightarrow> addr option \<Rightarrow> addr option \<Rightarrow> bool" where
  "wfStore h c cur lp =
     ((\<exists>xs. deref h c = Some (Array xs) \<and> (\<forall>a\<in>set xs. \<exists>p. deref h a = Some (Point p))) \<and>
      (\<forall>a. cur = Some a \<longrightarrow> (\<exists>d. deref h a = Some (Snapshot d))) \<and>
      (\<forall>a. lp = Some a \<longrightarrow> (\<exists>p. deref h a = Some (Prediction p))))"

definition wf :: "server \<Rightarrow> bool" where
  "wf s = wfStore (heap s) (priceChartData s) (currentData s) (lastPrediction s)"

subsection \<open>Reading the trace\<close>

fun emitted :: "action list \<Rightarrow> event list" where
  "emitted [] = []"
| "emitted (Emit ev # tr) = ev # emitted tr"
| "emitted (x # tr) = emitted tr"

fun completions :: "event list \<Rightarrow> addr list" where
  "completions [] = []"
| "completions (PredictionComplete a # evs) = a # completions evs"
| "completions (x # evs) = completions evs"

fun inbox :: "nat \<Rightarrow> action list \<Rightarrow> message list" where
  "inbox c [] = []"
| "inbox c (Send c' m # tr) = (if c' = c then m # inbox c tr else inbox c tr)"
| "inbox c (x # tr) = inbox c tr"

fun mtype :: "message \<Rightarrow> string" where
  "mtype (Message ty j) = ty"

fun responses :: "action list \<Rightarrow> (nat \<times> json) list" where
  "responses [] = []"
| "responses (Respond st body # tr) = (st, body) # responses tr"
| "responses (x # tr) = responses tr"

subsection \<open>Concrete inputs\<close>

text \<open>Three environments with a constant random source, and the dashboard after the load
  at start-up.\<close>

definition envHalf :: env where
  "envHalf = \<lparr>mathRandom = (\<lambda>k. 1 / 2), now = 1000, daysBefore = (\<lambda>i. 1000 - int i * 86400000)\<rparr>"

definition envQuarter :: env where
  "envQuarter =
     \<lparr>mathRandom = (\<lambda>k. 3 / 4), now = 31000, daysBefore = (\<lambda>i. 31000 - int i * 86400000)\<rparr>"

definition envZero :: env where
  "envZero = \<lparr>mathRandom = (\<lambda>k. 0), now = 2000, daysBefore = (\<lambda>i. 2000 - int i * 86400000)\<rparr>"

definition started :: server where
  "started = run [Startup envHalf] constructed"

text \<open>Two draws for two price updates in a row.\<close>

definition envFirst :: env where
  "envFirst =
     \<lparr>mathRandom = (\<lambda>k. 7182725400582741 / 2 ^ 53), now = 31000,
      daysBefore = (\<lambda>i. 31000 - int i * 86400000)\<rparr>"

definition envSecond :: env where
  "envSecond =
     \<lparr>mathRandom = (\<lambda>k. 3692796792905703 / 2 ^ 52), now = 61000,
      daysBefore = (\<lambda>i. 61000 - int i * 86400000)\<rparr>"

text \<open>A draw that takes the first price to 9135.\<close>

definition envLand :: env where
  "envLand =
     \<lparr>mathRandom = (\<lambda>k. 967570232443 / 2 ^ 43), now = 31000,
      daysBefore = (\<lambda>i. 31000 - int i * 86400000)\<rparr>"

subsection \<open>Forwarded messages\<close>

text \<open>
  A piece of trace that sends only to clients of \<open>cs\<close> and sends no
  \<^verbatim>\<open>initialData\<close>: what every callback but a connection adds.
\<close>

definition forwards :: "client list \<Rightarrow> action list \<Rightarrow> bool" where
  "forwards cs suf =
     (\<forall>c. (c \<notin> set (map cid cs) \<longrightarrow> inbox c suf = []) \<and>
          ''initialData'' \<notin> set (map mtype (inbox c suf)))"

subsection \<open>References held by the dashboard\<close>

text \<open>
  The addresses the dashboard holds: its three fields and the entries of its chart
  array. \<open>assign a ob\<close> is a write through the reference \<open>a\<close> by whoever holds it (a
  listener that changes the object it was handed). \<open>storeView\<close> is what the dashboard's
  fields denote.
\<close>

definition ownedByStore :: "server \<Rightarrow> addr \<Rightarrow> bool" where
  "ownedByStore s a =
     (a = priceChartData s \<or> currentData s = Some a \<or> lastPrediction s = Some a \<or>
      a \<in> set (elements (heap s) (priceChartData s)))"

definition assign :: "addr \<Rightarrow> obj \<Rightarrow> server \<Rightarrow> server" where
  "assign a ob s = s\<lparr>heap := (heap s)[a := ob]\<rparr>"

definition storeView :: "server \<Rightarrow> obj option \<times> obj option \<times> obj option list" where
  "storeView s = (currentSnapshot s, storedPrediction s, chartHistory s)"


section \<open>Properties of the model\<close>

subsection \<open>Rounding to a double\<close>

lemma floor_rat_numeral: "\<lfloor>numeral a / numeral b :: rat\<rfloor> = numeral a div numeral b"
  by (metis floor_divide_of_int_eq of_int_numeral)

lemma floor_rat_neg_numeral: "\<lfloor>- (numeral a / numeral b) :: rat\<rfloor> = (- numeral a) div numeral b"
  by (metis floor_divide_of_int_eq of_int_numeral of_int_minus minus_divide_left)

lemma not_overflow: "\<bar>v\<bar> < 2 ^ 64 \<Longrightarrow> \<not> overflow v"
proof -
  have "(2::rat) ^ 64 \<le> 2 ^ 1024" by (rule power_increasing) simp_all
  then show "\<bar>v\<bar> < 2 ^ 64 \<Longrightarrow> \<not> overflow v" unfolding overflow_def by linarith
qed

lemmas rnd_eval = rnd_def binade_def binadeUp.simps binadeDown.simps pow2_def roundEven_def Let_def
  floor_rat_numeral floor_rat_neg_numeral not_overflow

lemma lit_exact:
  "lit (1 / 2) = Fin (1 / 2)" "lit 3 = Fin 3" "lit 10 = Fin 10" "lit 30 = Fin 30" "lit 70 = Fin 70"
  "lit 100 = Fin 100" "lit 200 = Fin 200" "lit 9100 = Fin 9100"
  by (simp_all add: lit_def rnd_eval)

lemma lit_price: "lit (91389 / 10) = Fin (5024163407541043 / 549755813888)"
  by (simp add: lit_def rnd_eval)

lemma pow2_pos: "0 < pow2 e"
  by (simp add: pow2_def)

lemma roundEven_floor: "\<lfloor>y\<rfloor> \<le> roundEven y \<and> roundEven y \<le> \<lfloor>y\<rfloor> + 1"
  by (simp add: roundEven_def)

lemma roundEven_close: "\<bar>of_int (roundEven y) - y\<bar> \<le> 1 / 2"
proof -
  have "of_int \<lfloor>y\<rfloor> \<le> y" "y < of_int \<lfloor>y\<rfloor> + 1" by linarith+
  then show ?thesis by (auto simp: roundEven_def abs_le_iff)
qed

lemma roundEven_le: assumes "y \<le> of_int n" shows "roundEven y \<le> n"
proof (cases "\<lfloor>y\<rfloor> < n")
  case True
  then show ?thesis using roundEven_floor[of y] by linarith
next
  case False
  moreover have "\<lfloor>y\<rfloor> \<le> n" using assms by (simp add: floor_le_iff)
  ultimately have f: "\<lfloor>y\<rfloor> = n" by simp
  have "of_int \<lfloor>y\<rfloor> \<le> y" by linarith
  with assms f have "y = of_int n" by simp
  then show ?thesis by (simp add: roundEven_def)
qed

lemma roundEven_ge: assumes "of_int n \<le> y" shows "n \<le> roundEven y"
proof -
  have "n \<le> \<lfloor>y\<rfloor>" using assms by (simp add: le_floor_iff)
  then show ?thesis using roundEven_floor[of y] by linarith
qed

lemma binadeUp_mono: "x \<le> y \<Longrightarrow> binadeUp n x \<le> binadeUp n y"
proof (induction n arbitrary: x y)
  case 0
  then show ?case by (simp add: binadeUp.simps)
next
  case (Suc n)
  have "binadeUp n (x / 2) \<le> binadeUp n (y / 2)" using Suc.prems by (intro Suc.IH) simp
  then show ?case using Suc.prems
    by (simp add: binadeUp.simps[of "Suc n"])
qed

lemma binadeDown_mono: "x \<le> y \<Longrightarrow> binadeDown n y \<le> binadeDown n x"
proof (induction n arbitrary: x y)
  case 0
  then show ?case by (simp add: binadeDown.simps)
next
  case (Suc n)
  have "binadeDown n (y * 2) \<le> binadeDown n (x * 2)" using Suc.prems by (intro Suc.IH) simp
  then show ?case using Suc.prems
    by (simp add: binadeDown.simps[of "Suc n"])
qed

lemma binade_mono: "x \<le> y \<Longrightarrow> binade x \<le> binade y"
  using binadeUp_mono[of x y 1024] binadeDown_mono[of x y 1022]
  by (auto simp: binade_def)

lemma binadeUp_char:
  "1 \<le> x \<Longrightarrow> x < 2 ^ Suc n \<Longrightarrow> 2 ^ binadeUp n x \<le> x \<and> x < 2 ^ Suc (binadeUp n x)"
proof (induction n arbitrary: x)
  case 0
  then show ?case by (simp add: binadeUp.simps)
next
  case (Suc n)
  show ?case
  proof (cases "x < 2")
    case True
    then show ?thesis using Suc.prems by (simp add: binadeUp.simps[of "Suc n"])
  next
    case False
    then have "1 \<le> x / 2" "x / 2 < 2 ^ Suc n" using Suc.prems by simp_all
    then have "2 ^ binadeUp n (x / 2) \<le> x / 2 \<and> x / 2 < 2 ^ Suc (binadeUp n (x / 2))"
      by (rule Suc.IH)
    then show ?thesis using False by (simp add: binadeUp.simps[of "Suc n"])
  qed
qed

lemma binadeDown_char:
  "x < 1 \<Longrightarrow> 1 / 2 ^ n \<le> x \<Longrightarrow>
   1 / 2 ^ binadeDown n x \<le> x \<and> x < 2 / 2 ^ binadeDown n x"
proof (induction n arbitrary: x)
  case 0
  then show ?case by simp
next
  case (Suc n)
  show ?case
  proof (cases "1 \<le> x * 2")
    case True
    then have "binadeDown n (x * 2) = 0" by (simp add: binadeDown.simps)
    then show ?thesis using Suc.prems True by (simp add: binadeDown.simps[of "Suc n"])
  next
    case False
    then have "x * 2 < 1" by simp
    moreover have "1 / 2 ^ n \<le> x * 2" using Suc.prems(2) by (simp add: field_simps)
    ultimately have "1 / 2 ^ binadeDown n (x * 2) \<le> x * 2 \<and> x * 2 < 2 / 2 ^ binadeDown n (x * 2)"
      by (rule Suc.IH)
    then show ?thesis using Suc.prems(1) by (simp add: binadeDown.simps[of "Suc n"] field_simps)
  qed
qed

text \<open>The exponent of a number in the range of the normal doubles.\<close>

lemma binade_char:
  assumes "pow2 (- 1022) \<le> x" "x < 2 ^ 1025"
  shows "pow2 (binade x) \<le> x \<and> x < pow2 (binade x + 1)"
proof (cases "1 \<le> x")
  case True
  then have "2 ^ binadeUp 1024 x \<le> x \<and> x < 2 ^ Suc (binadeUp 1024 x)"
    using assms(2) by (intro binadeUp_char) simp_all
  then show ?thesis using True by (simp add: binade_def pow2_def nat_add_distrib)
next
  case False
  then have x: "x < 1" by simp
  have "1 / 2 ^ 1022 \<le> x" using assms(1) by (simp add: pow2_def)
  with x have c: "1 / 2 ^ binadeDown 1022 x \<le> x \<and> x < 2 / 2 ^ binadeDown 1022 x"
    by (rule binadeDown_char)
  have pos: "0 < binadeDown 1022 x" using x by (simp add: binadeDown.simps[of 1022])
  show ?thesis
  proof (cases "binadeDown 1022 x")
    case 0
    then show ?thesis using pos by simp
  next
    case (Suc k)
    then show ?thesis using c False by (simp add: binade_def pow2_def nat_add_distrib)
  qed
qed

lemma roundEven_of_int: "roundEven (of_int m) = m"
  by (simp add: roundEven_def)

text \<open>An integer of magnitude below \<open>2\<^sup>5\<^sup>3\<close> is a double.\<close>

lemma rnd_of_int:
  assumes "\<bar>n\<bar> < 2 ^ 53"
  shows "rnd (of_int n) = Fin (of_int n)"
proof (cases "n = 0")
  case True
  then show ?thesis by (simp add: rnd_def)
next
  case False
  define x :: rat where "x = \<bar>of_int n\<bar>"
  define k where "k = binadeUp 1024 x"
  have x1: "1 \<le> x" using False unfolding x_def by (metis of_int_abs of_int_1_le_iff abs_ge_zero zero_less_abs_iff int_one_le_iff_zero_less)
  have "x < 2 ^ 53" using assms unfolding x_def
    by (metis of_int_abs of_int_less_iff of_int_numeral of_int_power)
  moreover have "(2::rat) ^ 53 \<le> 2 ^ Suc 1024" by (rule power_increasing) simp_all
  ultimately have x2: "x < 2 ^ 53" "x < 2 ^ Suc 1024" by simp_all
  from binadeUp_char[OF x1 x2(2)] have "2 ^ k \<le> x" by (simp add: k_def)
  then have lt: "(2::rat) ^ k < 2 ^ 53" using x2(1) by (rule le_less_trans)
  have k: "k \<le> 52"
  proof (rule ccontr)
    assume "\<not> k \<le> 52"
    then have "53 \<le> k" by simp
    then have "(2::rat) ^ 53 \<le> 2 ^ k" by (rule power_increasing) simp
    with lt show False by linarith
  qed
  have b: "binade x = int k" using x1 by (simp add: binade_def k_def)
  have q: "pow2 (int k - 52) = 1 / 2 ^ (52 - k)"
  proof (cases "k = 52")
    case True
    then show ?thesis by (simp add: pow2_def)
  next
    case False
    with k have "k < 52" by simp
    then have "nat (52 - int k) = 52 - k" by simp
    then show ?thesis using \<open>k < 52\<close> by (simp add: pow2_def)
  qed
  have "of_int n / pow2 (int k - 52) = (of_int (n * 2 ^ (52 - k)) :: rat)"
    by (simp add: q)
  then have r: "roundEven (of_int n / pow2 (int k - 52)) = n * 2 ^ (52 - k)"
    by (simp only: roundEven_of_int)
  have v: "of_int (n * 2 ^ (52 - k)) * pow2 (int k - 52) = (of_int n :: rat)"
    by (simp add: q)
  have "\<bar>of_int n :: rat\<bar> < 2 ^ 64"
  proof -
    have "(2::rat) ^ 53 \<le> 2 ^ 64" by (rule power_increasing) simp_all
    with x2(1) show ?thesis by (simp add: x_def)
  qed
  then have o: "\<not> overflow (of_int n)" by (rule not_overflow)
  have "rnd (of_int n) =
      (if overflow (of_int (roundEven (of_int n / pow2 (int k - 52))) * pow2 (int k - 52))
       then (if 0 < (of_int n :: rat) then PosInf else NegInf)
       else Fin (of_int (roundEven (of_int n / pow2 (int k - 52))) * pow2 (int k - 52)))"
    using False by (simp add: rnd_def Let_def b[unfolded x_def])
  then show ?thesis unfolding r v using o by simp
qed

text \<open>A rounded number is within half a unit in the last place of the exact one.\<close>

lemma rnd_half_ulp:
  assumes "rnd x = Fin v"
  shows "\<bar>v - x\<bar> \<le> pow2 (binade \<bar>x\<bar> - 52) / 2"
proof (cases "x = 0")
  case True
  then show ?thesis using assms pow2_pos[of "binade \<bar>x\<bar> - 52"] by (simp add: rnd_def)
next
  case False
  define q where "q = pow2 (binade \<bar>x\<bar> - 52)"
  have q: "0 < q" unfolding q_def by (rule pow2_pos)
  have v: "v = of_int (roundEven (x / q)) * q"
    using assms False by (simp add: rnd_def Let_def q_def split: if_splits)
  have "v - x = (of_int (roundEven (x / q)) - x / q) * q"
    using q by (simp add: v field_simps)
  then have "\<bar>v - x\<bar> = \<bar>of_int (roundEven (x / q)) - x / q\<bar> * q"
    using q by (simp add: abs_mult)
  also have "\<dots> \<le> (1 / 2) * q"
    using roundEven_close[of "x / q"] q by (intro mult_right_mono) simp_all
  finally show ?thesis by (simp add: q_def)
qed

text \<open>Rounding does not pass a bound that is itself a double of every smaller exponent.\<close>

lemma rnd_abs_le:
  assumes x: "\<bar>x\<bar> \<le> B" and B: "B < 2 ^ 1024"
    and grid: "\<And>e. e \<le> binade B \<Longrightarrow> \<exists>n. B = of_int n * pow2 (e - 52)"
  shows "\<exists>v. rnd x = Fin v \<and> \<bar>v\<bar> \<le> B"
proof (cases "x = 0")
  case True
  then show ?thesis using x by (simp add: rnd_def)
next
  case False
  define q where "q = pow2 (binade \<bar>x\<bar> - 52)"
  define v where "v = of_int (roundEven (x / q)) * q"
  have q: "0 < q" unfolding q_def by (rule pow2_pos)
  have "binade \<bar>x\<bar> \<le> binade B" using x by (rule binade_mono)
  from grid[OF this] obtain n where n: "B = of_int n * q" unfolding q_def by blast
  have "x \<le> of_int n * q" "- (of_int n * q) \<le> x" using x n by (simp_all add: abs_le_iff)
  then have "x / q \<le> of_int n" "of_int (- n) \<le> x / q"
    using q by (simp_all add: field_simps)
  then have "roundEven (x / q) \<le> n" "- n \<le> roundEven (x / q)"
    by (simp_all only: roundEven_le roundEven_ge)
  then have "\<bar>roundEven (x / q)\<bar> \<le> n" by simp
  then have "\<bar>(of_int (roundEven (x / q)) :: rat)\<bar> \<le> of_int n"
    by (metis of_int_abs of_int_le_iff)
  then have "\<bar>of_int (roundEven (x / q))\<bar> * q \<le> of_int n * q"
    using q by (intro mult_right_mono) simp_all
  then have le: "\<bar>v\<bar> \<le> B" using q by (simp add: v_def n abs_mult)
  then have "\<not> overflow v" using B by (simp add: overflow_def)
  then have "rnd x = Fin v" using False by (simp add: rnd_def Let_def q_def v_def)
  with le show ?thesis by blast
qed

lemma rnd_abs_le_half:
  assumes "\<bar>x\<bar> \<le> 1 / 2"
  shows "\<exists>v. rnd x = Fin v \<and> \<bar>v\<bar> \<le> 1 / 2"
proof (rule rnd_abs_le[OF assms])
  show "(1 / 2 :: rat) < 2 ^ 1024"
  proof -
    have "(1::rat) \<le> 2 ^ 1024" by (rule one_le_power) simp
    then show ?thesis by linarith
  qed
next
  fix e :: int
  assume "e \<le> binade (1 / 2)"
  moreover have "binade (1 / 2) = - 1" by (simp add: binade_def binadeDown.simps)
  ultimately have e: "e \<le> - 1" by simp
  then have "nat (52 - e) = Suc (nat (51 - e))" by simp
  then have "(1 / 2 :: rat) = of_int (2 ^ nat (51 - e)) * pow2 (e - 52)"
    using e by (simp add: pow2_def)
  then show "\<exists>n. (1 / 2 :: rat) = of_int n * pow2 (e - 52)" ..
qed

lemma rnd_abs_le_five:
  assumes "\<bar>x\<bar> \<le> 5"
  shows "\<exists>v. rnd x = Fin v \<and> \<bar>v\<bar> \<le> 5"
proof (rule rnd_abs_le[OF assms])
  show "(5 :: rat) < 2 ^ 1024"
  proof -
    have "(2::rat) ^ 3 \<le> 2 ^ 1024" by (rule power_increasing) simp_all
    then show ?thesis by simp
  qed
next
  fix e :: int
  assume "e \<le> binade 5"
  moreover have "binade 5 = 2" by (simp add: binade_def binadeUp.simps)
  ultimately have e: "e \<le> 2" by simp
  then have "(5 :: rat) = of_int (5 * 2 ^ nat (52 - e)) * pow2 (e - 52)"
    by (simp add: pow2_def)
  then show "\<exists>n. (5 :: rat) = of_int n * pow2 (e - 52)" ..
qed

text \<open>A draw in \<open>[0, 1)\<close> gives a finite delta of magnitude at most 5.\<close>

lemma delta_bounded:
  assumes "0 \<le> mathRandom e 0" "mathRandom e 0 < 1"
  shows "\<exists>x. delta e = Fin x \<and> \<bar>x\<bar> \<le> 5"
proof -
  have "\<bar>mathRandom e 0 + - (1 / 2)\<bar> \<le> 1 / 2" using assms by linarith
  from rnd_abs_le_half[OF this] obtain v where
    v: "rnd (mathRandom e 0 + - (1 / 2)) = Fin v" "\<bar>v\<bar> \<le> 1 / 2" by blast
  then have "\<bar>v * 10\<bar> \<le> 5" by (simp add: abs_mult)
  from rnd_abs_le_five[OF this] obtain x where x: "rnd (v * 10) = Fin x" "\<bar>x\<bar> \<le> 5" by blast
  have "delta e = Fin x" using v(1) x(1) by (simp add: delta_def fsub_def)
  with x(2) show ?thesis by blast
qed

subsection \<open>The store\<close>


lemma deref_append: "deref (h @ [x]) a = (if a = length h then Some x else deref h a)"
  by (simp add: deref_def nth_append)

lemma deref_update: "deref (h[b := x]) a = (if a = b \<and> b < length h then Some x else deref h a)"
  by (simp add: deref_def)

lemma deref_Some_less: "deref h a = Some x \<Longrightarrow> a < length h"
  by (simp add: deref_def split: if_splits)

lemma deref_append_old: "a < length h \<Longrightarrow> deref (h @ ys) a = deref h a"
  by (simp add: deref_def nth_append)

lemma deref_two:
  "deref (h @ [x, y]) a =
     (if a = length h then Some x else if a = Suc (length h) then Some y else deref h a)"
  by (auto simp: deref_def nth_append)

lemma length_push: "length (push h a x) = length h"
  by (simp add: push_def)

lemma length_shift: "length (shift h a) = length h"
  by (simp add: shift_def)

lemma deref_push:
  "deref (push h a x) b =
     (if b = a \<and> a < length h then Some (Array (elements h a @ [x])) else deref h b)"
  by (simp add: push_def deref_update)

lemma deref_shift:
  "deref (shift h a) b =
     (if b = a \<and> a < length h then Some (Array (tl (elements h a))) else deref h b)"
  by (simp add: shift_def deref_update)

lemma elements_append_old: "a < length h \<Longrightarrow> elements (h @ ys) a = elements h a"
  by (simp add: elements_def deref_append_old)

lemma elements_push: "a < length h \<Longrightarrow> elements (push h a x) a = elements h a @ [x]"
  by (simp add: elements_def deref_push)

lemma elements_shift: "a < length h \<Longrightarrow> elements (shift h a) a = tl (elements h a)"
  by (simp add: elements_def deref_shift)

lemma length_tickStore: "length (tickStore e d c h) = length h + 3"
  by (simp add: tickStore_def Let_def length_push length_shift)

lemma elements_tickStore:
  "c < length h \<Longrightarrow> elements (tickStore e d c h) c = fifo (elements h c @ [Suc (length h)])"
  by (simp add: tickStore_def Let_def fifo_def elements_append_old elements_push elements_shift
      length_push length_shift)

lemma deref_tickStore_old:
  "b < length h \<Longrightarrow> b \<noteq> c \<Longrightarrow> deref (tickStore e d c h) b = deref h b"
  by (simp add: tickStore_def Let_def deref_append_old deref_push deref_shift length_push length_shift)

lemma deref_tickStore_new:
  assumes "c < length h"
  shows "deref (tickStore e d c h) (length h) = Some (Snapshot (tickSnapshot e d))"
    and "deref (tickStore e d c h) (Suc (length h)) = Some (Point (tickPoint e d))"
    and "deref (tickStore e d c h) (Suc (Suc (length h))) = Some (PriceData (tickPayload e d))"
  using assms
  by (simp_all add: tickStore_def Let_def deref_append deref_push deref_shift length_push length_shift
      deref_two)

lemma stringify_new:
  "stringify (h @ [Snapshot d]) (length h) = JSnapshot d"
  "stringify (h @ [Prediction p]) (length h) = JPrediction p"
  by (simp_all add: stringify_def stringifyElement_def deref_append)

lemma load_char:
  "loadDashboardData e s =
     (length (heap s),
      s\<lparr>heap := heap s @ [Snapshot (mockData e)], currentData := Some (length (heap s)),
        isLoading := False,
        trace := trace s @ Emit (DataLoaded (length (heap s))) #
                 sends ''dataLoaded'' (JSnapshot (mockData e)) (clients s)\<rparr>)"
  by (simp add: loadDashboardData_def Let_def alloc_def emit_def broadcast_def stringify_new)

lemma runPrediction_idle:
  "\<not> isLoading s \<Longrightarrow>
   runPrediction k s =
     s\<lparr>isLoading := True, pending := pending s @ [k], trace := trace s @ [Emit PredictionStarted]\<rparr>"
  by (simp add: runPrediction_def emit_def)

lemma runPrediction_busy: "isLoading s \<Longrightarrow> runPrediction k s = resume k s"
  by (simp add: runPrediction_def)

lemma timeout_char:
  "pending s = k # ks \<Longrightarrow>
   timeout e s =
     resume k
       (s\<lparr>heap := heap s @ [Prediction (newPrediction e)],
          lastPrediction := Some (length (heap s)), isLoading := False, pending := ks,
          trace := trace s @ Emit (PredictionComplete (length (heap s))) #
                   sends ''predictionResult'' (JPrediction (newPrediction e)) (clients s)\<rparr>)"
  by (cases k) (simp_all add: timeout_def simulatePrediction_def Let_def alloc_def emit_def
      broadcast_def stringify_new respond_def)

lemma timeout_idle: "pending s = [] \<Longrightarrow> timeout e s = s"
  by (simp add: timeout_def)

lemma tick_char:
  assumes "currentData s = Some a" "deref (heap s) a = Some (Snapshot d)"
  shows "simulatePriceUpdate e s =
     s\<lparr>heap := tickStore' e d (priceChartData s) (heap s),
       currentData := Some (length (heap s)),
       trace := trace s @ Emit (PriceUpdate (Suc (Suc (length (heap s))))) #
          sends ''priceUpdate'' (stringify (tickStore e d (priceChartData s) (heap s)) (Suc (Suc (length (heap s))))) (clients s) @
          Emit (ChartUpdate (Suc (Suc (Suc (length (heap s)))))) #
          sends ''chartUpdate'' (stringify (tickStore' e d (priceChartData s) (heap s)) (Suc (Suc (Suc (length (heap s)))))) (clients s)\<rparr>"
  using assms
  by (simp add: simulatePriceUpdate_def Let_def alloc_def emit_def broadcast_def slice_def
       tickStore_def tickStore'_def tickSnapshot_def tickPoint_def tickPayload_def delta_def
       length_push length_shift)

lemma tick_none: "currentData s = None \<Longrightarrow> simulatePriceUpdate e s = s"
  by (simp add: simulatePriceUpdate_def)

subsection \<open>Well-formedness is kept\<close>

lemma deref_append_Some:
  assumes "deref h a = Some y"
  shows "deref (h @ ys) a = Some y"
proof -
  have "a < length h" using assms by (rule deref_Some_less)
  then have "deref (h @ ys) a = deref h a" by (rule deref_append_old)
  then show ?thesis using assms by simp
qed

lemma wfStoreI:
  assumes "deref h c = Some (Array xs)"
    and "\<And>a. a \<in> set xs \<Longrightarrow> \<exists>p. deref h a = Some (Point p)"
    and "\<And>a. cur = Some a \<Longrightarrow> \<exists>d. deref h a = Some (Snapshot d)"
    and "\<And>a. lp = Some a \<Longrightarrow> \<exists>p. deref h a = Some (Prediction p)"
  shows "wfStore h c cur lp"
  unfolding wfStore_def using assms by blast

lemma wfStore_append:
  assumes "wfStore h c cur lp"
  shows "wfStore (h @ [x]) c cur lp"
proof -
  have keep: "deref (h @ [x]) a = Some y" if "deref h a = Some y" for a y
    using that by (rule deref_append_Some)
  from assms obtain xs where xs: "deref h c = Some (Array xs)"
    and pts: "\<forall>a\<in>set xs. \<exists>p. deref h a = Some (Point p)"
    and cur: "\<forall>a. cur = Some a \<longrightarrow> (\<exists>d. deref h a = Some (Snapshot d))"
    and lp: "\<forall>a. lp = Some a \<longrightarrow> (\<exists>p. deref h a = Some (Prediction p))"
    unfolding wfStore_def by blast
  show ?thesis
  proof (rule wfStoreI)
    show "deref (h @ [x]) c = Some (Array xs)" using xs by (rule keep)
    show "\<exists>p. deref (h @ [x]) a = Some (Point p)" if "a \<in> set xs" for a
      using pts that keep by blast
    show "\<exists>d. deref (h @ [x]) a = Some (Snapshot d)" if "cur = Some a" for a
      using cur that keep by blast
    show "\<exists>p. deref (h @ [x]) a = Some (Prediction p)" if "lp = Some a" for a
      using lp that keep by blast
  qed
qed

lemma wfStore_current:
  assumes "wfStore h c cur lp" "deref h a = Some (Snapshot d)"
  shows "wfStore h c (Some a) lp"
proof -
  from assms(1) obtain xs where xs: "deref h c = Some (Array xs)"
    and pts: "\<forall>a\<in>set xs. \<exists>p. deref h a = Some (Point p)"
    and lp: "\<forall>a. lp = Some a \<longrightarrow> (\<exists>p. deref h a = Some (Prediction p))"
    unfolding wfStore_def by blast
  show ?thesis
  proof (rule wfStoreI)
    show "deref h c = Some (Array xs)" by (rule xs)
    show "\<exists>p. deref h b = Some (Point p)" if "b \<in> set xs" for b using pts that by blast
    show "\<exists>d. deref h b = Some (Snapshot d)" if "Some a = Some b" for b
      using that assms(2) by simp
    show "\<exists>p. deref h b = Some (Prediction p)" if "lp = Some b" for b using lp that by blast
  qed
qed

lemma wfStore_last:
  assumes "wfStore h c cur lp" "deref h a = Some (Prediction p)"
  shows "wfStore h c cur (Some a)"
proof -
  from assms(1) obtain xs where xs: "deref h c = Some (Array xs)"
    and pts: "\<forall>a\<in>set xs. \<exists>p. deref h a = Some (Point p)"
    and cur: "\<forall>a. cur = Some a \<longrightarrow> (\<exists>d. deref h a = Some (Snapshot d))"
    unfolding wfStore_def by blast
  show ?thesis
  proof (rule wfStoreI)
    show "deref h c = Some (Array xs)" by (rule xs)
    show "\<exists>p. deref h b = Some (Point p)" if "b \<in> set xs" for b using pts that by blast
    show "\<exists>d. deref h b = Some (Snapshot d)" if "cur = Some b" for b using cur that by blast
    show "\<exists>p. deref h b = Some (Prediction p)" if "Some a = Some b" for b
      using that assms(2) by simp
  qed
qed

lemma wfStore_append_snapshot:
  assumes "wfStore h c cur lp"
  shows "wfStore (h @ [Snapshot d]) c (Some (length h)) lp"
  by (rule wfStore_current[OF wfStore_append[OF assms]]) (simp add: deref_append)

lemma wfStore_append_prediction:
  assumes "wfStore h c cur lp"
  shows "wfStore (h @ [Prediction p]) c cur (Some (length h))"
  by (rule wfStore_last[OF wfStore_append[OF assms]]) (simp add: deref_append)

lemma set_fifo: "set (fifo ys) \<subseteq> set ys"
  by (cases ys) (auto simp: fifo_def)

lemma fifo_map: "fifo (map f ys) = map f (fifo ys)"
  by (simp add: fifo_def map_tl)

lemma wfStore_chart_less:
  assumes "wfStore h c cur lp"
  shows "c < length h"
proof -
  from assms obtain xs where "deref h c = Some (Array xs)"
    unfolding wfStore_def by blast
  then show ?thesis by (rule deref_Some_less)
qed

lemma deref_tickStore'_old:
  "b < length h \<Longrightarrow> b \<noteq> c \<Longrightarrow> deref (tickStore' e d c h) b = deref h b"
  by (simp add: tickStore'_def deref_append_old length_tickStore deref_tickStore_old)

lemma deref_tickStore'_new:
  assumes "c < length h"
  shows "deref (tickStore' e d c h) (length h) = Some (Snapshot (tickSnapshot e d))"
    and "deref (tickStore' e d c h) (Suc (length h)) = Some (Point (tickPoint e d))"
    and "deref (tickStore' e d c h) (Suc (Suc (length h))) = Some (PriceData (tickPayload e d))"
    and "deref (tickStore' e d c h) (Suc (Suc (Suc (length h)))) =
           Some (Array (fifo (elements h c @ [Suc (length h)])))"
  using assms
  by (simp_all add: tickStore'_def deref_append length_tickStore deref_tickStore_new elements_tickStore)

lemma elements_tickStore':
  "c < length h \<Longrightarrow> elements (tickStore' e d c h) c = fifo (elements h c @ [Suc (length h)])"
  by (simp add: tickStore'_def elements_append_old length_tickStore elements_tickStore)

lemma length_tickStore': "length (tickStore' e d c h) = length h + 4"
  by (simp add: tickStore'_def length_tickStore)


lemma deref_tickStore_chart:
  "c < length h \<Longrightarrow>
   deref (tickStore e d c h) c = Some (Array (fifo (elements h c @ [Suc (length h)])))"
  by (simp add: tickStore_def Let_def fifo_def deref_append deref_push deref_shift length_push
      length_shift elements_push elements_append_old)

lemma deref_tickStore'_chart:
  "c < length h \<Longrightarrow>
   deref (tickStore' e d c h) c = Some (Array (fifo (elements h c @ [Suc (length h)])))"
  by (simp add: tickStore'_def deref_append_old length_tickStore deref_tickStore_chart)

lemma wfStore_tick:
  assumes "wfStore h c (Some a) lp" "deref h a = Some (Snapshot d)"
  shows "wfStore (tickStore' e d c h) c (Some (length h)) lp"
proof -
  from assms(1) obtain xs where xs: "deref h c = Some (Array xs)"
    and pts: "\<forall>b\<in>set xs. \<exists>p. deref h b = Some (Point p)"
    and lp: "\<forall>b. lp = Some b \<longrightarrow> (\<exists>p. deref h b = Some (Prediction p))"
    unfolding wfStore_def by blast
  have c: "c < length h" using xs by (rule deref_Some_less)
  have el: "elements h c = xs" using xs by (simp add: elements_def)
  have chart: "deref (tickStore' e d c h) c = Some (Array (fifo (xs @ [Suc (length h)])))"
    using deref_tickStore'_chart[OF c, of e d] el by simp
  have old: "deref (tickStore' e d c h) b = deref h b" if "deref h b = Some y" "\<forall>zs. y \<noteq> Array zs" for b y
  proof -
    have "b < length h" using that(1) by (rule deref_Some_less)
    moreover have "b \<noteq> c"
    proof
      assume "b = c"
      with that(1) xs have "y = Array xs" by simp
      with that(2) show False by blast
    qed
    ultimately show ?thesis by (rule deref_tickStore'_old)
  qed
  have points: "\<exists>p. deref (tickStore' e d c h) b = Some (Point p)"
    if "b \<in> set (fifo (xs @ [Suc (length h)]))" for b
  proof -
    have "set (fifo (xs @ [Suc (length h)])) \<subseteq> set (xs @ [Suc (length h)])" by (rule set_fifo)
    with that have "b \<in> set (xs @ [Suc (length h)])" by (rule subsetD[rotated])
    then consider "b \<in> set xs" | "b = Suc (length h)" by auto
    then show ?thesis
    proof cases
      case 1
      then obtain p where "deref h b = Some (Point p)" using pts by blast
      then show ?thesis using old[of b "Point p"] by simp
    next
      case 2
      then show ?thesis using deref_tickStore'_new(2)[OF c] by simp
    qed
  qed
  have pred: "\<exists>p. deref (tickStore' e d c h) b = Some (Prediction p)" if "lp = Some b" for b
  proof -
    from that lp obtain p where "deref h b = Some (Prediction p)" by blast
    then show ?thesis using old[of b "Prediction p"] by simp
  qed
  show ?thesis
  proof (rule wfStoreI)
    show "deref (tickStore' e d c h) c = Some (Array (fifo (xs @ [Suc (length h)])))" by (rule chart)
    show "\<exists>p. deref (tickStore' e d c h) b = Some (Point p)"
      if "b \<in> set (fifo (xs @ [Suc (length h)]))" for b using that by (rule points)
    show "\<exists>d'. deref (tickStore' e d c h) b = Some (Snapshot d')" if "Some (length h) = Some b" for b
      using that deref_tickStore'_new(1)[OF c, of e d] by auto
    show "\<exists>p. deref (tickStore' e d c h) b = Some (Prediction p)" if "lp = Some b" for b
      using that by (rule pred)
  qed
qed

lemma chartOf_append:
  assumes "wfStore h c cur lp"
  shows "chartOf (h @ ys) c = chartOf h c"
proof -
  from assms obtain xs where xs: "deref h c = Some (Array xs)"
    and pts: "\<forall>b\<in>set xs. \<exists>p. deref h b = Some (Point p)"
    unfolding wfStore_def by blast
  have c: "c < length h" using xs by (rule deref_Some_less)
  have "\<forall>b\<in>set xs. b < length h" using pts deref_Some_less by blast
  then have m: "map (deref (h @ ys)) xs = map (deref h) xs"
    by (simp add: deref_append_old)
  have "elements h c = xs" using xs by (simp add: elements_def)
  then show ?thesis using c by (simp add: chartOf_def elements_append_old m)
qed

lemma chartOf_tick:
  assumes "wfStore h c cur lp"
  shows "chartOf (tickStore' e d c h) c = fifo (chartOf h c @ [Some (Point (tickPoint e d))])"
proof -
  from assms obtain xs where xs: "deref h c = Some (Array xs)"
    and pts: "\<forall>b\<in>set xs. \<exists>p. deref h b = Some (Point p)"
    unfolding wfStore_def by blast
  have c: "c < length h" using xs by (rule deref_Some_less)
  have el: "elements h c = xs" using xs by (simp add: elements_def)
  have "deref (tickStore' e d c h) b = deref h b" if "b \<in> set xs" for b
  proof -
    from that pts obtain p where p: "deref h b = Some (Point p)" by blast
    then have "b < length h" by (rule deref_Some_less)
    moreover have "b \<noteq> c" using p xs by auto
    ultimately show ?thesis by (rule deref_tickStore'_old)
  qed
  then have m: "map (deref (tickStore' e d c h)) xs = map (deref h) xs" by simp
  show ?thesis
    using c el deref_tickStore'_new(2)[OF c, of e d]
    by (simp add: chartOf_def elements_tickStore' fifo_map[symmetric] m)
qed


subsection \<open>The small steps, field by field\<close>

lemma resume_fields:
  "heap (resume k s) = heap s" "priceChartData (resume k s) = priceChartData s"
  "currentData (resume k s) = currentData s" "lastPrediction (resume k s) = lastPrediction s"
  "isLoading (resume k s) = isLoading s" "clients (resume k s) = clients s"
  "nextClient (resume k s) = nextClient s" "pending (resume k s) = pending s"
  by (cases k; simp add: respond_def)+

lemma runPrediction_fields:
  "heap (runPrediction k s) = heap s" "priceChartData (runPrediction k s) = priceChartData s"
  "currentData (runPrediction k s) = currentData s"
  "lastPrediction (runPrediction k s) = lastPrediction s"
  "clients (runPrediction k s) = clients s" "nextClient (runPrediction k s) = nextClient s"
  by (cases "isLoading s"; simp add: runPrediction_idle runPrediction_busy resume_fields)+

lemma onConnection_fields:
  "heap (onConnection s) = heap s" "priceChartData (onConnection s) = priceChartData s"
  "currentData (onConnection s) = currentData s"
  "lastPrediction (onConnection s) = lastPrediction s"
  "isLoading (onConnection s) = isLoading s" "pending (onConnection s) = pending s"
  "nextClient (onConnection s) = Suc (nextClient s)"
  "clients (onConnection s) = clients s @ [\<lparr>cid = nextClient s, readyState = OPEN\<rparr>]"
  by (simp_all add: onConnection_def Let_def split: option.split)

lemma wf_cong:
  assumes "heap s' = heap s" "priceChartData s' = priceChartData s"
    "currentData s' = currentData s" "lastPrediction s' = lastPrediction s"
  shows "wf s' = wf s"
  using assms by (simp add: wf_def)

lemma wf_load: "wf s \<Longrightarrow> wf (snd (loadDashboardData e s))"
  by (simp add: wf_def load_char wfStore_append_snapshot)

lemma wf_runPrediction: "wf (runPrediction k s) = wf s"
  by (rule wf_cong) (simp_all add: runPrediction_fields)

lemma wf_timeout: "wf s \<Longrightarrow> wf (timeout e s)"
proof (cases "pending s")
  case Nil
  then show "wf s \<Longrightarrow> wf (timeout e s)" by (simp add: timeout_idle)
next
  case (Cons k ks)
  assume "wf s"
  then have "wfStore (heap s @ [Prediction (newPrediction e)]) (priceChartData s) (currentData s)
      (Some (length (heap s)))"
    unfolding wf_def by (rule wfStore_append_prediction)
  then show "wf (timeout e s)"
    by (simp add: timeout_char[OF Cons] wf_def resume_fields)
qed

lemma wf_snapshot:
  assumes "wf s" "currentData s = Some a"
  obtains d where "deref (heap s) a = Some (Snapshot d)"
  using assms unfolding wf_def wfStore_def by blast

lemma wf_tick: "wf s \<Longrightarrow> wf (simulatePriceUpdate e s)"
proof (cases "currentData s")
  case None
  then show "wf s \<Longrightarrow> wf (simulatePriceUpdate e s)" by (simp add: tick_none)
next
  case (Some a)
  assume w: "wf s"
  then obtain d where d: "deref (heap s) a = Some (Snapshot d)"
    using Some by (rule wf_snapshot)
  have "wfStore (tickStore' e d (priceChartData s) (heap s)) (priceChartData s)
      (Some (length (heap s))) (lastPrediction s)"
    using w d unfolding wf_def Some by (rule wfStore_tick)
  then show "wf (simulatePriceUpdate e s)"
    by (simp add: tick_char[OF Some d] wf_def)
qed

lemma wf_step: "wf s \<Longrightarrow> wf (step x s)"
proof (cases x)
  case (Startup e)
  then show "wf s \<Longrightarrow> wf (step x s)" by (simp add: wf_load)
next
  case Connection
  have "wf (onConnection s) = wf s"
    by (rule wf_cong) (simp_all add: onConnection_fields)
  then show "wf s \<Longrightarrow> wf (step x s)" using Connection by simp
next
  case (WsMessage c m e)
  then show "wf s \<Longrightarrow> wf (step x s)"
    by (simp add: onMessage_def wf_load wf_runPrediction)
next
  case (WsClosing c)
  then show "wf s \<Longrightarrow> wf (step x s)" by (simp add: onClosing_def wf_def)
next
  case (WsClose c)
  then show "wf s \<Longrightarrow> wf (step x s)" by (simp add: onClose_def wf_def)
next
  case (GetDashboard e)
  assume "wf s"
  then have "wf (snd (loadDashboardData e s))" by (rule wf_load)
  then show "wf (step x s)"
    using GetDashboard by (simp add: getDashboard_def load_char respond_def wf_def)
next
  case PostPredict
  then show "wf s \<Longrightarrow> wf (step x s)" by (simp add: postPredict_def wf_runPrediction)
next
  case GetLastPrediction
  have "wf (getLastPrediction s) = wf s"
    by (rule wf_cong) (simp_all add: getLastPrediction_def respond_def split: option.split)
  then show "wf s \<Longrightarrow> wf (step x s)" using GetLastPrediction by simp
next
  case (Interval e)
  then show "wf s \<Longrightarrow> wf (step x s)" by (simp add: wf_tick)
next
  case (Timeout e)
  then show "wf s \<Longrightarrow> wf (step x s)" by (simp add: wf_timeout)
qed

lemma wf_constructed: "wf constructed"
  by (simp add: wf_def wfStore_def constructed_def deref_def)

lemma wf_run: "wf s \<Longrightarrow> wf (run xs s)"
  by (induction xs arbitrary: s) (simp_all add: wf_step)

lemma wf_reachable: "wf (run xs constructed)"
  by (rule wf_run[OF wf_constructed])


subsection \<open>The chart history along a run\<close>

lemma chartHistory_cong:
  assumes "heap s' = heap s" "priceChartData s' = priceChartData s"
  shows "chartHistory s' = chartHistory s"
  using assms by (simp add: chartHistory_def)

lemma chartHistory_load: "wf s \<Longrightarrow> chartHistory (snd (loadDashboardData e s)) = chartHistory s"
  by (simp add: load_char chartHistory_def wf_def chartOf_append)

lemma chartHistory_runPrediction: "chartHistory (runPrediction k s) = chartHistory s"
  by (rule chartHistory_cong) (simp_all add: runPrediction_fields)

lemma chartHistory_timeout: "wf s \<Longrightarrow> chartHistory (timeout e s) = chartHistory s"
proof (cases "pending s")
  case Nil
  then show ?thesis by (simp add: timeout_idle)
next
  case (Cons k ks)
  assume "wf s"
  then have "chartOf (heap s @ [Prediction (newPrediction e)]) (priceChartData s) =
      chartOf (heap s) (priceChartData s)"
    unfolding wf_def by (rule chartOf_append)
  then show ?thesis
    by (simp add: timeout_char[OF Cons] chartHistory_def resume_fields)
qed

lemma tickOf_None: "currentData s = None \<Longrightarrow> tickOf e s = None"
  by (simp add: tickOf_def currentSnapshot_def)

lemma tickOf_Some:
  "currentData s = Some a \<Longrightarrow> deref (heap s) a = Some (Snapshot d) \<Longrightarrow>
   tickOf e s = Some (tickPoint e d)"
  by (simp add: tickOf_def currentSnapshot_def)

lemma chartHistory_tick:
  assumes "wf s"
  shows "chartHistory (simulatePriceUpdate e s) =
     (case tickOf e s of None \<Rightarrow> chartHistory s | Some p \<Rightarrow> appendPoint (chartHistory s) p)"
proof (cases "currentData s")
  case None
  then show ?thesis by (simp add: tick_none tickOf_None)
next
  case (Some a)
  from assms Some obtain d where d: "deref (heap s) a = Some (Snapshot d)"
    by (rule wf_snapshot)
  have "chartOf (tickStore' e d (priceChartData s) (heap s)) (priceChartData s) =
      fifo (chartOf (heap s) (priceChartData s) @ [Some (Point (tickPoint e d))])"
    using assms unfolding wf_def by (rule chartOf_tick)
  then show ?thesis
    by (simp add: tick_char[OF Some d] tickOf_Some[OF Some d] chartHistory_def appendPoint_def)
qed

lemma chartHistory_step:
  assumes "wf s"
  shows "chartHistory (step x s) = foldl appendPoint (chartHistory s) (pushedBy x s)"
proof (cases x)
  case (Startup e)
  then show ?thesis using assms by (simp add: chartHistory_load)
next
  case Connection
  have "chartHistory (onConnection s) = chartHistory s"
    by (rule chartHistory_cong) (simp_all add: onConnection_fields)
  then show ?thesis using Connection by simp
next
  case (WsMessage c m e)
  then show ?thesis using assms
    by (simp add: onMessage_def chartHistory_load chartHistory_runPrediction)
next
  case (WsClosing c)
  then show ?thesis by (simp add: onClosing_def chartHistory_def)
next
  case (WsClose c)
  then show ?thesis by (simp add: onClose_def chartHistory_def)
next
  case (GetDashboard e)
  have "chartHistory (getDashboard e s) = chartHistory (snd (loadDashboardData e s))"
    by (rule chartHistory_cong) (simp_all add: getDashboard_def load_char respond_def)
  then show ?thesis using GetDashboard assms by (simp add: chartHistory_load)
next
  case PostPredict
  then show ?thesis by (simp add: postPredict_def chartHistory_runPrediction)
next
  case GetLastPrediction
  have "chartHistory (getLastPrediction s) = chartHistory s"
    by (rule chartHistory_cong) (simp_all add: getLastPrediction_def respond_def split: option.split)
  then show ?thesis using GetLastPrediction by simp
next
  case (Interval e)
  then show ?thesis using assms by (simp add: chartHistory_tick split: option.split)
next
  case (Timeout e)
  then show ?thesis using assms by (simp add: chartHistory_timeout)
qed

lemma chartHistory_run:
  "wf s \<Longrightarrow> chartHistory (run xs s) = foldl appendPoint (chartHistory s) (generated xs s)"
  by (induction xs arbitrary: s) (simp_all add: chartHistory_step wf_step)

lemma length_fifo: "length ys \<le> 31 \<Longrightarrow> length (fifo ys) \<le> 30"
  by (auto simp: fifo_def)

lemma lastN_fifo:
  assumes "length hs \<le> 30"
  shows "lastN 30 (fifo (hs @ [x]) @ r) = lastN 30 (hs @ x # r)"
proof (cases "length hs = 30")
  case True
  then have "hs \<noteq> []" by auto
  then obtain y ys where hs: "hs = y # ys" by (cases hs) auto
  with True have "length ys = 29" by simp
  then show ?thesis using hs by (simp add: fifo_def lastN_def)
next
  case False
  with assms show ?thesis by (simp add: fifo_def)
qed

lemma foldl_appendPoint:
  "length hs \<le> 30 \<Longrightarrow>
   foldl appendPoint hs ps = lastN 30 (hs @ map (\<lambda>p. Some (Point p)) ps)"
proof (induction ps arbitrary: hs)
  case Nil
  then show ?case by (simp add: lastN_def)
next
  case (Cons p ps)
  have "length (appendPoint hs p) \<le> 30"
    using Cons.prems by (simp add: appendPoint_def length_fifo)
  then have "foldl appendPoint (appendPoint hs p) ps =
      lastN 30 (appendPoint hs p @ map (\<lambda>p. Some (Point p)) ps)"
    by (rule Cons.IH)
  also have "\<dots> = lastN 30 (hs @ Some (Point p) # map (\<lambda>p. Some (Point p)) ps)"
    unfolding appendPoint_def using Cons.prems by (rule lastN_fifo)
  finally show ?case by simp
qed

lemma chartHistory_constructed: "chartHistory constructed = []"
  by (simp add: chartHistory_def chartOf_def elements_def constructed_def deref_def)

lemma chartHistory_reachable:
  "chartHistory (run xs constructed) =
     lastN 30 (map (\<lambda>p. Some (Point p)) (generated xs constructed))"
  using chartHistory_run[OF wf_constructed, of xs] foldl_appendPoint[of "[]"]
  by (simp add: chartHistory_constructed)

lemma length_lastN: "length (lastN n xs) \<le> n"
  by (simp add: lastN_def)

lemma length_chartHistory: "length (chartHistory s) = length (elements (heap s) (priceChartData s))"
  by (simp add: chartHistory_def chartOf_def)

subsection \<open>One price update\<close>

lemma emitted_append: "emitted (tr @ tr') = emitted tr @ emitted tr'"
  by (induction tr rule: emitted.induct) simp_all

lemma emitted_sends: "emitted (sends ty j cs) = []"
  by (induction cs) (simp_all add: sends_def)

lemma emitted_resume: "emitted (trace (resume k s)) = emitted (trace s)"
  by (cases k) (simp_all add: respond_def emitted_append)

lemma toFixed_rounds:
  assumes "\<bar>x\<bar> < 10 ^ 21"
  shows "\<exists>neg n. toFixed f (Fin x) = Decimal neg n f \<and>
           \<bar>(if neg then - 1 else 1) * of_nat n / 10 ^ f - x\<bar> \<le> 1 / (2 * 10 ^ f)"
proof -
  define y where "y = \<bar>x\<bar> * 10 ^ f + 1 / 2"
  define n where "n = nat \<lfloor>y\<rfloor>"
  have "0 \<le> y" by (simp add: y_def)
  then have "0 \<le> \<lfloor>y\<rfloor>" by simp
  then have n: "(of_nat n :: rat) = of_int \<lfloor>y\<rfloor>" by (simp add: n_def)
  have lo: "of_nat n \<le> y" unfolding n by (rule of_int_floor_le)
  have hi: "y < of_nat n + 1" unfolding n using floor_correct[of y] by simp
  have p: "(0::rat) < 10 ^ f" by simp
  define z where "z = \<bar>x\<bar> * 10 ^ f"
  have "\<bar>of_nat n - z\<bar> \<le> 1 / 2"
    using lo hi unfolding y_def z_def[symmetric] by linarith
  then have close: "\<bar>of_nat n - \<bar>x\<bar> * 10 ^ f\<bar> \<le> 1 / 2"
    by (simp only: z_def)
  have "of_nat n / 10 ^ f - \<bar>x\<bar> = (of_nat n - \<bar>x\<bar> * 10 ^ f) / 10 ^ f"
    using p by (simp add: field_simps)
  then have "\<bar>of_nat n / 10 ^ f - \<bar>x\<bar>\<bar> = \<bar>(of_nat n - \<bar>x\<bar> * 10 ^ f) / 10 ^ f\<bar>"
    by (simp only:)
  also have "\<dots> = \<bar>of_nat n - \<bar>x\<bar> * 10 ^ f\<bar> / 10 ^ f"
    using p by (simp add: abs_divide)
  also have "\<dots> \<le> (1 / 2) / 10 ^ f" using close by (rule divide_right_mono) simp
  finally have d: "\<bar>of_nat n / 10 ^ f - \<bar>x\<bar>\<bar> \<le> 1 / (2 * 10 ^ f)" by simp
  have "\<bar>(if x < 0 then - 1 else 1) * of_nat n / 10 ^ f - x\<bar> = \<bar>of_nat n / 10 ^ f - \<bar>x\<bar>\<bar>"
    by (cases "x < 0") (simp_all add: abs_minus_commute[symmetric] del: abs_minus_commute)
  with d have "\<bar>(if x < 0 then - 1 else 1) * of_nat n / 10 ^ f - x\<bar> \<le> 1 / (2 * 10 ^ f)" by simp
  moreover have "toFixed f (Fin x) = Decimal (x < 0) n f"
    using assms by (simp add: n_def y_def)
  ultimately show ?thesis by blast
qed

lemma stringify_array_copy:
  assumes "deref h c = Some (Array xs)"
  shows "stringify (h @ [Array xs]) (length h) = stringify (h @ [Array xs]) c"
proof -
  have c: "c < length h" using assms by (rule deref_Some_less)
  then have "deref (h @ [Array xs]) c = Some (Array xs)"
    using assms by (simp add: deref_append_old)
  then show ?thesis by (simp add: stringify_def deref_append)
qed

lemma currentSnapshot_tick:
  assumes "wf s" "currentData s = Some a" "deref (heap s) a = Some (Snapshot d)"
  shows "currentSnapshot (simulatePriceUpdate e s) = Some (Snapshot (tickSnapshot e d))"
proof -
  have "priceChartData s < length (heap s)"
    using assms(1) unfolding wf_def by (rule wfStore_chart_less)
  then show ?thesis
    by (simp add: tick_char[OF assms(2,3)] currentSnapshot_def deref_tickStore'_new)
qed

lemma trace_tick:
  assumes "wf s" "currentData s = Some a" "deref (heap s) a = Some (Snapshot d)"
  shows "trace (simulatePriceUpdate e s) =
     trace s @ Emit (PriceUpdate (Suc (Suc (length (heap s))))) #
       sends ''priceUpdate'' (JPriceData (tickPayload e d)) (clients s) @
       Emit (ChartUpdate (Suc (Suc (Suc (length (heap s)))))) #
       sends ''chartUpdate'' (stringify (heap (simulatePriceUpdate e s)) (priceChartData s)) (clients s)"
proof -
  have c: "priceChartData s < length (heap s)"
    using assms(1) unfolding wf_def by (rule wfStore_chart_less)
  have 1: "stringify (tickStore e d (priceChartData s) (heap s)) (Suc (Suc (length (heap s)))) =
      JPriceData (tickPayload e d)"
    using c by (simp add: stringify_def stringifyElement_def deref_tickStore_new)
  have "deref (tickStore e d (priceChartData s) (heap s)) (priceChartData s) =
      Some (Array (elements (tickStore e d (priceChartData s) (heap s)) (priceChartData s)))"
    using c by (simp add: deref_tickStore_chart elements_tickStore)
  then have 2: "stringify (tickStore' e d (priceChartData s) (heap s)) (Suc (Suc (Suc (length (heap s))))) =
      stringify (tickStore' e d (priceChartData s) (heap s)) (priceChartData s)"
    using stringify_array_copy[of "tickStore e d (priceChartData s) (heap s)" "priceChartData s"]
    by (simp add: tickStore'_def length_tickStore numeral_3_eq_3)
  show ?thesis
    by (simp add: tick_char[OF assms(2,3)] 1 2)
qed

lemma heap_tick:
  assumes "currentData s = Some a" "deref (heap s) a = Some (Snapshot d)"
  shows "heap (simulatePriceUpdate e s) = tickStore' e d (priceChartData s) (heap s)"
    and "priceChartData (simulatePriceUpdate e s) = priceChartData s"
    and "currentData (simulatePriceUpdate e s) = Some (length (heap s))"
    and "lastPrediction (simulatePriceUpdate e s) = lastPrediction s"
    and "isLoading (simulatePriceUpdate e s) = isLoading s"
    and "pending (simulatePriceUpdate e s) = pending s"
    and "clients (simulatePriceUpdate e s) = clients s"
    and "nextClient (simulatePriceUpdate e s) = nextClient s"
  by (simp_all add: tick_char[OF assms])

lemma started_eq:
  "started =
     \<lparr>heap = [Array [], Snapshot (mockData envHalf)], priceChartData = 0, currentData = Some 1,
      isLoading = False, lastPrediction = None, clients = [], nextClient = 0, pending = [],
      trace = [Emit (DataLoaded 1)]\<rparr>"
  by (simp add: started_def load_char constructed_def sends_def)

subsection \<open>The numbers of a price update\<close>

lemma tickSnapshot_fields:
  "currentPrice (tickSnapshot e d) = fadd (currentPrice d) (delta e)"
  "priceChange (tickSnapshot e d) = fsub (currentPrice (tickSnapshot e d)) (currentPrice d)"
  "priceChangePercent (tickSnapshot e d) =
     StrV (toFixed 2 (fmul (fdiv (priceChange (tickSnapshot e d)) (currentPrice d)) (Fin 100)))"
  by (simp_all add: tickSnapshot_def)

text \<open>With a previous price of 0 the quotient is not a finite number and the percentage
  is one of the strings \<^verbatim>\<open>NaN\<close>, \<^verbatim>\<open>Infinity\<close> and \<^verbatim>\<open>-Infinity\<close>.\<close>

lemma percent_of_zero_price:
  assumes "currentPrice d = Fin 0"
  shows "priceChangePercent (tickSnapshot e d) \<in>
     {StrV NaNStr, StrV (InfinityStr False), StrV (InfinityStr True)}"
proof -
  have q: "fmul (fdiv w (Fin 0)) (Fin 100) \<in> {NaN, PosInf, NegInf}" for w
    by (cases w) (simp_all add: signed_def)
  have "toFixed 2 (fmul (fdiv w (Fin 0)) (Fin 100)) \<in>
      {NaNStr, InfinityStr False, InfinityStr True}" for w
    using q[of w] by auto
  then show ?thesis unfolding tickSnapshot_fields(3) assms by blast
qed

lemma delta_quarter: "delta envQuarter = Fin (5 / 2)"
  by (simp add: delta_def envQuarter_def fsub_def rnd_eval)

lemma delta_first: "delta envFirst = Fin (1674453608257653 / 562949953421312)"
  by (simp add: delta_def envFirst_def fsub_def rnd_eval)

lemma delta_second: "delta envSecond = Fin (7204984896102275 / 2251799813685248)"
  by (simp add: delta_def envSecond_def fsub_def rnd_eval)

lemma tick_quarter:
  "currentPrice (tickSnapshot envQuarter (mockData envHalf)) = Fin (5025537797075763 / 549755813888)"
  "priceChange (tickSnapshot envQuarter (mockData envHalf)) = Fin (5 / 2)"
  "fmul (fdiv (priceChange (tickSnapshot envQuarter (mockData envHalf)))
          (currentPrice (mockData envHalf))) (Fin 100) =
     Fin (492794496861821 / 18014398509481984)"
  "priceChangePercent (tickSnapshot envQuarter (mockData envHalf)) = StrV (Decimal False 3 2)"
proof -
  have p: "currentPrice (mockData envHalf) = Fin (5024163407541043 / 549755813888)"
    by (simp add: mockData_def lit_price)
  show 1: "currentPrice (tickSnapshot envQuarter (mockData envHalf)) =
      Fin (5025537797075763 / 549755813888)"
    by (simp add: tickSnapshot_fields(1) p delta_quarter rnd_eval)
  show 2: "priceChange (tickSnapshot envQuarter (mockData envHalf)) = Fin (5 / 2)"
    by (simp add: tickSnapshot_fields(2) 1 p fsub_def rnd_eval)
  show 3: "fmul (fdiv (priceChange (tickSnapshot envQuarter (mockData envHalf)))
          (currentPrice (mockData envHalf))) (Fin 100) =
     Fin (492794496861821 / 18014398509481984)"
    by (simp add: 2 p rnd_eval)
  show "priceChangePercent (tickSnapshot envQuarter (mockData envHalf)) = StrV (Decimal False 3 2)"
    unfolding tickSnapshot_fields(3) 3 by (simp add: floor_rat_numeral)
qed

lemma tick_first:
  "currentPrice (tickSnapshot envFirst (mockData envHalf)) = Fin (5025798616142857 / 549755813888)"
proof -
  have p: "currentPrice (mockData envHalf) = Fin (5024163407541043 / 549755813888)"
    by (simp add: mockData_def lit_price)
  show ?thesis by (simp add: tickSnapshot_fields(1) p delta_first rnd_eval)
qed

lemma tick_second:
  "currentPrice (tickSnapshot envSecond (tickSnapshot envFirst (mockData envHalf))) =
     Fin (5027557645658507 / 549755813888)"
  "priceChange (tickSnapshot envSecond (tickSnapshot envFirst (mockData envHalf))) =
     Fin (879514757825 / 274877906944)"
  "priceChangePercent (tickSnapshot envSecond (tickSnapshot envFirst (mockData envHalf))) =
     StrV (Decimal False 3 2)"
proof -
  let ?d = "tickSnapshot envFirst (mockData envHalf)"
  show 1: "currentPrice (tickSnapshot envSecond ?d) = Fin (5027557645658507 / 549755813888)"
    unfolding tickSnapshot_fields(1)[of envSecond] tick_first delta_second
    by (simp add: rnd_eval)
  show 2: "priceChange (tickSnapshot envSecond ?d) = Fin (879514757825 / 274877906944)"
    unfolding tickSnapshot_fields(2)[of envSecond] 1 tick_first
    by (simp add: fsub_def rnd_eval)
  have 3: "fmul (fdiv (priceChange (tickSnapshot envSecond ?d)) (currentPrice ?d)) (Fin 100) =
     Fin (5044031582654955 / 144115188075855872)"
    by (simp add: 2 tick_first rnd_eval)
  show "priceChangePercent (tickSnapshot envSecond ?d) = StrV (Decimal False 3 2)"
    unfolding tickSnapshot_fields(3) 3 by (simp add: floor_rat_numeral)
qed

lemma validRandom_constant:
  "validRandom envHalf" "validRandom envQuarter" "validRandom envZero"
  "validRandom envFirst" "validRandom envSecond"
  by (simp_all add: validRandom_def envHalf_def envQuarter_def envZero_def envFirst_def
      envSecond_def rnd_eval)

lemma tick_started:
  "run [Startup envHalf, Interval e] constructed = simulatePriceUpdate e started"
  "currentSnapshot (simulatePriceUpdate e started) = Some (Snapshot (tickSnapshot e (mockData envHalf)))"
  "currentData (simulatePriceUpdate e started) = Some 2"
  "deref (heap (simulatePriceUpdate e started)) 2 = Some (Snapshot (tickSnapshot e (mockData envHalf)))"
proof -
  have w: "wf started" unfolding started_def by (rule wf_reachable)
  have c: "currentData started = Some 1" by (simp add: started_eq)
  have d: "deref (heap started) 1 = Some (Snapshot (mockData envHalf))"
    by (simp add: started_eq deref_def)
  show "run [Startup envHalf, Interval e] constructed = simulatePriceUpdate e started"
    by (simp add: started_def)
  show 1: "currentSnapshot (simulatePriceUpdate e started) =
      Some (Snapshot (tickSnapshot e (mockData envHalf)))"
    using w c d by (rule currentSnapshot_tick)
  show 2: "currentData (simulatePriceUpdate e started) = Some 2"
    by (simp add: heap_tick(3)[OF c d]) (simp add: started_eq)
  show "deref (heap (simulatePriceUpdate e started)) 2 =
      Some (Snapshot (tickSnapshot e (mockData envHalf)))"
    using 1 by (simp add: currentSnapshot_def 2)
qed

lemma delta_zero: "delta envZero = Fin (- 5)"
  by (simp add: delta_def envZero_def fsub_def rnd_eval)

lemma countdown_step:
  assumes "currentPrice d = Fin (5 * of_nat (Suc k))" "k \<le> 2000"
  shows "currentPrice (tickSnapshot envZero d) = Fin (5 * of_nat k)"
proof -
  have "\<bar>5 * int k\<bar> < 2 ^ 53" using assms(2) by simp
  then have "rnd (of_int (5 * int k)) = Fin (of_int (5 * int k))" by (rule rnd_of_int)
  moreover have "(5 * of_nat (Suc k) + - 5 :: rat) = of_int (5 * int k)" by simp
  ultimately show ?thesis
    by (simp only: tickSnapshot_fields(1) assms(1) delta_zero fadd.simps) simp
qed

lemma price_countdown:
  assumes "wf s" "currentSnapshot s = Some (Snapshot d)" "currentPrice d = Fin (5 * of_nat k)"
    "k \<le> 2000"
  shows "\<exists>d'. currentSnapshot (run (replicate k (Interval envZero)) s) = Some (Snapshot d') \<and>
           currentPrice d' = Fin 0"
  using assms
proof (induction k arbitrary: s d)
  case 0
  then show ?case by simp
next
  case (Suc k)
  from Suc.prems(2) obtain a where a: "currentData s = Some a" "deref (heap s) a = Some (Snapshot d)"
    by (auto simp: currentSnapshot_def split: option.splits)
  let ?s = "simulatePriceUpdate envZero s"
  have w: "wf ?s" using wf_step[OF Suc.prems(1), of "Interval envZero"] by simp
  have c: "currentSnapshot ?s = Some (Snapshot (tickSnapshot envZero d))"
    using Suc.prems(1) a by (rule currentSnapshot_tick)
  have p: "currentPrice (tickSnapshot envZero d) = Fin (5 * of_nat k)"
    using Suc.prems(3,4) by (intro countdown_step) simp_all
  have "k \<le> 2000" using Suc.prems(4) by simp
  from Suc.IH[OF w c p this] show ?case by simp
qed

lemma run_append: "run (xs @ ys) s = run ys (run xs s)"
  by (induction xs arbitrary: s) simp_all

lemma tick_land: "currentPrice (tickSnapshot envLand (mockData envHalf)) = Fin 9135"
proof -
  have p: "currentPrice (mockData envHalf) = Fin (5024163407541043 / 549755813888)"
    by (simp add: mockData_def lit_price)
  have d: "delta envLand = Fin (- (17152381393305 / 4398046511104))"
    by (simp add: delta_def envLand_def fsub_def rnd_eval)
  show ?thesis by (simp add: tickSnapshot_fields(1) p d rnd_eval)
qed

text \<open>
  A price of 0 can be reached: a price update that lands on 9135 and 1827 updates with
  the draw 0, each of which takes 5 off. The update after that divides by 0.
\<close>

lemma zero_price_reachable:
  "validRandom envLand \<and> validRandom envZero \<and>
   (\<exists>d. currentSnapshot
          (run ([Startup envHalf, Interval envLand] @ replicate 1827 (Interval envZero)) constructed) =
            Some (Snapshot d) \<and>
        currentPrice d = Fin 0 \<and>
        currentSnapshot
          (run (([Startup envHalf, Interval envLand] @ replicate 1827 (Interval envZero)) @
                [Interval envZero]) constructed) =
            Some (Snapshot (tickSnapshot envZero d)) \<and>
        priceChangePercent (tickSnapshot envZero d) = StrV (InfinityStr True))"
proof -
  let ?ops = "[Startup envHalf, Interval envLand] @ replicate 1827 (Interval envZero)"
  let ?s = "run [Startup envHalf, Interval envLand] constructed"
  have v: "validRandom envLand" by (simp add: validRandom_def envLand_def rnd_eval)
  have w: "wf ?s" by (rule wf_reachable)
  have c: "currentSnapshot ?s = Some (Snapshot (tickSnapshot envLand (mockData envHalf)))"
    by (simp only: tick_started(1,2))
  have p: "currentPrice (tickSnapshot envLand (mockData envHalf)) = Fin (5 * of_nat 1827)"
    by (simp add: tick_land)
  from price_countdown[OF w c p] obtain d where
    d: "currentSnapshot (run (replicate 1827 (Interval envZero)) ?s) = Some (Snapshot d)"
      "currentPrice d = Fin 0" by auto
  have 1: "currentSnapshot (run ?ops constructed) = Some (Snapshot d)"
    unfolding run_append by (rule d(1))
  from 1 obtain a where a: "currentData (run ?ops constructed) = Some a"
      "deref (heap (run ?ops constructed)) a = Some (Snapshot d)"
    by (auto simp: currentSnapshot_def split: option.splits)
  have "wf (run ?ops constructed)" by (rule wf_reachable)
  then have "currentSnapshot (simulatePriceUpdate envZero (run ?ops constructed)) =
      Some (Snapshot (tickSnapshot envZero d))"
    using a by (rule currentSnapshot_tick)
  then have 2: "currentSnapshot (run (?ops @ [Interval envZero]) constructed) =
      Some (Snapshot (tickSnapshot envZero d))"
    by (simp only: run_append[of ?ops] run.simps step.simps)
  have 3: "priceChangePercent (tickSnapshot envZero d) = StrV (InfinityStr True)"
    unfolding tickSnapshot_fields d(2) delta_zero
    by (simp add: fsub_def signed_def rnd_eval)
  from v validRandom_constant(3) 1 d(2) 2 3 show ?thesis by blast
qed

subsection \<open>The events of each callback\<close>

lemma completions_append: "completions (xs @ ys) = completions xs @ completions ys"
  by (induction xs rule: completions.induct) simp_all

lemma emitted_load:
  "emitted (trace (snd (loadDashboardData e s))) = emitted (trace s) @ [DataLoaded (length (heap s))]"
  by (simp add: load_char emitted_append emitted_sends)

lemma emitted_runPrediction:
  "emitted (trace (runPrediction k s)) =
     emitted (trace s) @ (if isLoading s then [] else [PredictionStarted])"
  by (cases "isLoading s") (simp_all add: runPrediction_idle runPrediction_busy emitted_resume emitted_append)

lemma emitted_timeout:
  "emitted (trace (timeout e s)) =
     emitted (trace s) @ (case pending s of [] \<Rightarrow> [] | k # ks \<Rightarrow> [PredictionComplete (length (heap s))])"
proof (cases "pending s")
  case Nil
  then show ?thesis by (simp add: timeout_idle)
next
  case (Cons k ks)
  then show ?thesis
    by (simp add: timeout_char emitted_resume emitted_append emitted_sends)
qed

lemma lastPrediction_timeout:
  "lastPrediction (timeout e s) =
     (case pending s of [] \<Rightarrow> lastPrediction s | k # ks \<Rightarrow> Some (length (heap s)))"
proof (cases "pending s")
  case Nil
  then show ?thesis by (simp add: timeout_idle)
next
  case (Cons k ks)
  then show ?thesis by (simp add: timeout_char resume_fields)
qed

lemma emitted_tick:
  "emitted (trace (simulatePriceUpdate e s)) =
     emitted (trace s) @
     (case currentSnapshot s of
        Some (Snapshot d) \<Rightarrow> [PriceUpdate (Suc (Suc (length (heap s)))), ChartUpdate (Suc (Suc (Suc (length (heap s)))))]
      | _ \<Rightarrow> [])"
proof (cases "currentData s")
  case None
  then show ?thesis by (simp add: tick_none currentSnapshot_def)
next
  case (Some a)
  show ?thesis
  proof (cases "deref (heap s) a")
    case None
    then show ?thesis using Some by (simp add: simulatePriceUpdate_def currentSnapshot_def)
  next
    case (Some ob)
    note ob = this
    show ?thesis
    proof (cases ob)
      case (Snapshot d)
      then show ?thesis
        using \<open>currentData s = Some a\<close> ob
        by (simp add: tick_char currentSnapshot_def emitted_append emitted_sends)
    qed (use \<open>currentData s = Some a\<close> ob in \<open>simp_all add: simulatePriceUpdate_def currentSnapshot_def\<close>)
  qed
qed

lemma lastPrediction_tick: "lastPrediction (simulatePriceUpdate e s) = lastPrediction s"
proof (cases "currentData s")
  case None
  then show ?thesis by (simp add: tick_none)
next
  case (Some a)
  show ?thesis
  proof (cases "deref (heap s) a")
    case None
    then show ?thesis using Some by (simp add: simulatePriceUpdate_def)
  next
    case (Some ob)
    note ob = this
    show ?thesis
    proof (cases ob)
      case (Snapshot d)
      then show ?thesis
        using \<open>currentData s = Some a\<close> ob by (simp add: tick_char)
    qed (use \<open>currentData s = Some a\<close> ob in \<open>simp_all add: simulatePriceUpdate_def\<close>)
  qed
qed

lemma emitted_step:
  "emitted (trace (step x s)) =
     emitted (trace s) @
     (case x of
        Startup e \<Rightarrow> [DataLoaded (length (heap s))]
      | GetDashboard e \<Rightarrow> [DataLoaded (length (heap s))]
      | WsMessage c m e \<Rightarrow>
          (if c \<in> set (map cid (clients s)) then
             (if m = ''getPrediction'' then (if isLoading s then [] else [PredictionStarted])
              else if m = ''getDashboardData'' then [DataLoaded (length (heap s))] else [])
           else [])
      | PostPredict \<Rightarrow> (if isLoading s then [] else [PredictionStarted])
      | Interval e \<Rightarrow>
          (case currentSnapshot s of
             Some (Snapshot d) \<Rightarrow>
               [PriceUpdate (Suc (Suc (length (heap s)))), ChartUpdate (Suc (Suc (Suc (length (heap s)))))]
           | _ \<Rightarrow> [])
      | Timeout e \<Rightarrow> (case pending s of [] \<Rightarrow> [] | k # ks \<Rightarrow> [PredictionComplete (length (heap s))])
      | _ \<Rightarrow> [])"
proof (cases x)
  case (Startup e)
  then show ?thesis by (simp add: emitted_load)
next
  case Connection
  then show ?thesis by (simp add: onConnection_def Let_def emitted_append split: option.split)
next
  case (WsMessage c m e)
  then show ?thesis by (simp add: onMessage_def emitted_load emitted_runPrediction)
next
  case (WsClosing c)
  then show ?thesis by (simp add: onClosing_def)
next
  case (WsClose c)
  then show ?thesis by (simp add: onClose_def)
next
  case (GetDashboard e)
  then show ?thesis
    by (simp add: getDashboard_def load_char respond_def emitted_append emitted_sends)
next
  case PostPredict
  then show ?thesis by (simp add: postPredict_def emitted_runPrediction)
next
  case GetLastPrediction
  then show ?thesis by (simp add: getLastPrediction_def respond_def emitted_append split: option.split)
next
  case (Interval e)
  then show ?thesis by (simp add: emitted_tick)
next
  case (Timeout e)
  then show ?thesis by (simp add: emitted_timeout)
qed

lemma lastPrediction_step:
  "lastPrediction (step x s) =
     (case x of
        Timeout e \<Rightarrow> (case pending s of [] \<Rightarrow> lastPrediction s | k # ks \<Rightarrow> Some (length (heap s)))
      | _ \<Rightarrow> lastPrediction s)"
proof (cases x)
  case (Startup e)
  then show ?thesis by (simp add: load_char)
next
  case Connection
  then show ?thesis by (simp add: onConnection_fields)
next
  case (WsMessage c m e)
  then show ?thesis by (simp add: onMessage_def load_char runPrediction_fields)
next
  case (WsClosing c)
  then show ?thesis by (simp add: onClosing_def)
next
  case (WsClose c)
  then show ?thesis by (simp add: onClose_def)
next
  case (GetDashboard e)
  then show ?thesis by (simp add: getDashboard_def load_char respond_def)
next
  case PostPredict
  then show ?thesis by (simp add: postPredict_def runPrediction_fields)
next
  case GetLastPrediction
  then show ?thesis by (simp add: getLastPrediction_def respond_def split: option.split)
next
  case (Interval e)
  then show ?thesis by (simp add: lastPrediction_tick)
next
  case (Timeout e)
  then show ?thesis by (simp add: lastPrediction_timeout)
qed

subsection \<open>The last prediction\<close>

lemma completions_step:
  "completions (emitted (trace (step x s))) =
     completions (emitted (trace s)) @
     (case x of
        Timeout e \<Rightarrow> (case pending s of [] \<Rightarrow> [] | k # ks \<Rightarrow> [length (heap s)])
      | _ \<Rightarrow> [])"
  unfolding emitted_step
  by (cases x) (simp_all add: completions_append split: option.split obj.split list.split)

lemma lastPrediction_inv_step:
  assumes "lastPrediction s = (case rev (completions (emitted (trace s))) of [] \<Rightarrow> None | a # as \<Rightarrow> Some a)"
  shows "lastPrediction (step x s) =
    (case rev (completions (emitted (trace (step x s)))) of [] \<Rightarrow> None | a # as \<Rightarrow> Some a)"
  unfolding completions_step lastPrediction_step
  using assms by (cases x) (simp_all split: list.split)

lemma lastPrediction_inv_run:
  assumes "lastPrediction s = (case rev (completions (emitted (trace s))) of [] \<Rightarrow> None | a # as \<Rightarrow> Some a)"
  shows "lastPrediction (run xs s) =
    (case rev (completions (emitted (trace (run xs s)))) of [] \<Rightarrow> None | a # as \<Rightarrow> Some a)"
  using assms
proof (induction xs arbitrary: s)
  case Nil
  then show ?case by simp
next
  case (Cons x xs)
  show ?case
    using Cons.IH[OF lastPrediction_inv_step[OF Cons.prems, of x]] by simp
qed

lemma lastPrediction_reachable:
  "lastPrediction (run xs constructed) =
    (case rev (completions (emitted (trace (run xs constructed)))) of [] \<Rightarrow> None | a # as \<Rightarrow> Some a)"
  by (rule lastPrediction_inv_run) (simp add: constructed_def)

lemma wf_prediction:
  assumes "wf s" "lastPrediction s = Some a"
  obtains p where "deref (heap s) a = Some (Prediction p)"
  using assms unfolding wf_def wfStore_def by blast

subsection \<open>Loading\<close>

lemma storedPrediction_append:
  assumes "wf s"
  shows "(case lastPrediction s of None \<Rightarrow> None | Some a \<Rightarrow> deref (heap s @ ys) a) = storedPrediction s"
proof (cases "lastPrediction s")
  case None
  then show ?thesis by (simp add: storedPrediction_def)
next
  case (Some a)
  from assms Some obtain p where "deref (heap s) a = Some (Prediction p)" by (rule wf_prediction)
  then have "deref (heap s @ ys) a = deref (heap s) a" by (simp add: deref_append_Some)
  then show ?thesis using Some by (simp add: storedPrediction_def)
qed

lemma length_generateHistoricalData: "length (generateHistoricalData e) = 30"
  by (simp add: generateHistoricalData_def)

lemma set_lastN: "set (lastN n xs) \<subseteq> set xs"
  unfolding lastN_def by (rule set_drop_subset)

subsection \<open>What the clients receive\<close>

lemma inbox_append: "inbox c (tr @ tr') = inbox c tr @ inbox c tr'"
  by (induction tr rule: inbox.induct) simp_all

lemma inbox_sends_absent: "c \<notin> set (map cid cs) \<Longrightarrow> inbox c (sends ty j cs) = []"
  by (induction cs) (simp_all add: sends_def)

lemma inbox_sends_type: "m \<in> set (inbox c (sends ty j cs)) \<Longrightarrow> mtype m = ty"
  by (induction cs) (auto simp: sends_def split: if_splits)

lemma forwards_Nil: "forwards cs []"
  by (simp add: forwards_def)

lemma forwards_Emit: "forwards cs suf \<Longrightarrow> forwards cs (Emit ev # suf)"
  by (simp add: forwards_def)

lemma forwards_Respond: "forwards cs suf \<Longrightarrow> forwards cs (Respond st body # suf)"
  by (simp add: forwards_def)

lemma forwards_sends:
  assumes "ty \<noteq> ''initialData''"
  shows "forwards cs (sends ty j cs)"
  unfolding forwards_def
proof (intro allI conjI impI)
  fix c
  assume "c \<notin> set (map cid cs)"
  then show "inbox c (sends ty j cs) = []" by (rule inbox_sends_absent)
next
  fix c
  show "''initialData'' \<notin> set (map mtype (inbox c (sends ty j cs)))"
  proof
    assume "''initialData'' \<in> set (map mtype (inbox c (sends ty j cs)))"
    then obtain m where "m \<in> set (inbox c (sends ty j cs))" "mtype m = ''initialData''" by auto
    then show False using inbox_sends_type[of m c ty j cs] assms by simp
  qed
qed

lemma forwards_append: "forwards cs suf \<Longrightarrow> forwards cs suf' \<Longrightarrow> forwards cs (suf @ suf')"
  by (simp add: forwards_def inbox_append)

lemma forwards_resume: "\<exists>suf. trace (resume k s) = trace s @ suf \<and> forwards cs suf"
proof (cases k)
  case Detached
  then show ?thesis using forwards_Nil[of cs] by simp
next
  case Responding
  have "forwards cs [Respond 200 (JObject [(''message'', ''Prediction started'')])]"
    by (rule forwards_Respond[OF forwards_Nil])
  then show ?thesis using Responding by (simp add: respond_def)
qed

lemma forwards_load:
  "\<exists>suf. trace (snd (loadDashboardData e s)) = trace s @ suf \<and> forwards (clients s) suf"
proof -
  have "forwards (clients s) (Emit (DataLoaded (length (heap s))) #
      sends ''dataLoaded'' (JSnapshot (mockData e)) (clients s))"
    by (rule forwards_Emit[OF forwards_sends]) simp
  then show ?thesis by (simp add: load_char)
qed

lemma forwards_runPrediction:
  "\<exists>suf. trace (runPrediction k s) = trace s @ suf \<and> forwards (clients s) suf"
proof (cases "isLoading s")
  case True
  then show ?thesis using forwards_resume[of k s "clients s"] by (simp add: runPrediction_busy)
next
  case False
  have "forwards (clients s) [Emit PredictionStarted]" by (rule forwards_Emit[OF forwards_Nil])
  then show ?thesis using False by (simp add: runPrediction_idle)
qed

lemma forwards_timeout:
  "\<exists>suf. trace (timeout e s) = trace s @ suf \<and> forwards (clients s) suf"
proof (cases "pending s")
  case Nil
  then show ?thesis using forwards_Nil[of "clients s"] by (simp add: timeout_idle)
next
  case (Cons k ks)
  let ?t = "s\<lparr>heap := heap s @ [Prediction (newPrediction e)],
          lastPrediction := Some (length (heap s)), isLoading := False, pending := ks,
          trace := trace s @ Emit (PredictionComplete (length (heap s))) #
                   sends ''predictionResult'' (JPrediction (newPrediction e)) (clients s)\<rparr>"
  have 1: "forwards (clients s) (Emit (PredictionComplete (length (heap s))) #
      sends ''predictionResult'' (JPrediction (newPrediction e)) (clients s))"
    by (rule forwards_Emit[OF forwards_sends]) simp
  obtain suf where 2: "trace (resume k ?t) = trace ?t @ suf" "forwards (clients s) suf"
    using forwards_resume[of k ?t "clients s"] by blast
  have "trace (timeout e s) = trace s @ ((Emit (PredictionComplete (length (heap s))) #
      sends ''predictionResult'' (JPrediction (newPrediction e)) (clients s)) @ suf)"
    using 2(1) by (simp add: timeout_char[OF Cons])
  then show ?thesis using forwards_append[OF 1 2(2)] by blast
qed

lemma forwards_tick:
  "\<exists>suf. trace (simulatePriceUpdate e s) = trace s @ suf \<and> forwards (clients s) suf"
proof (cases "currentData s")
  case None
  then show ?thesis using forwards_Nil[of "clients s"] by (simp add: tick_none)
next
  case (Some a)
  show ?thesis
  proof (cases "deref (heap s) a")
    case None
    then show ?thesis using Some forwards_Nil[of "clients s"] by (simp add: simulatePriceUpdate_def)
  next
    case (Some ob)
    note ob = this
    show ?thesis
    proof (cases ob)
      case (Snapshot d)
      let ?a = "Emit (PriceUpdate (Suc (Suc (length (heap s))))) #
          sends ''priceUpdate'' (stringify (tickStore e d (priceChartData s) (heap s)) (Suc (Suc (length (heap s))))) (clients s)"
      let ?b = "Emit (ChartUpdate (Suc (Suc (Suc (length (heap s)))))) #
          sends ''chartUpdate'' (stringify (tickStore' e d (priceChartData s) (heap s)) (Suc (Suc (Suc (length (heap s)))))) (clients s)"
      have "forwards (clients s) ?a" by (rule forwards_Emit[OF forwards_sends]) simp
      moreover have "forwards (clients s) ?b" by (rule forwards_Emit[OF forwards_sends]) simp
      ultimately have "forwards (clients s) (?a @ ?b)" by (rule forwards_append)
      moreover have "trace (simulatePriceUpdate e s) = trace s @ (?a @ ?b)"
        using \<open>currentData s = Some a\<close> ob Snapshot by (simp add: tick_char)
      ultimately show ?thesis by blast
    qed (use \<open>currentData s = Some a\<close> ob forwards_Nil[of "clients s"] in \<open>simp_all add: simulatePriceUpdate_def\<close>)
  qed
qed

lemma forwards_step:
  assumes "x \<noteq> Connection"
  shows "\<exists>suf. trace (step x s) = trace s @ suf \<and> forwards (clients s) suf"
proof (cases x)
  case (Startup e)
  then show ?thesis using forwards_load[of e s] by simp
next
  case Connection
  then show ?thesis using assms by simp
next
  case (WsMessage c m e)
  then show ?thesis
    using forwards_load[of e s] forwards_runPrediction[of Detached s] forwards_Nil[of "clients s"]
    by (simp add: onMessage_def)
next
  case (WsClosing c)
  then show ?thesis using forwards_Nil[of "clients s"] by (simp add: onClosing_def)
next
  case (WsClose c)
  then show ?thesis using forwards_Nil[of "clients s"] by (simp add: onClose_def)
next
  case (GetDashboard e)
  obtain suf where suf: "trace (snd (loadDashboardData e s)) = trace s @ suf" "forwards (clients s) suf"
    using forwards_load[of e s] by blast
  have "forwards (clients s) [Respond 200 (JSnapshot (mockData e))]"
    by (rule forwards_Respond[OF forwards_Nil])
  with suf(2) have "forwards (clients s) (suf @ [Respond 200 (JSnapshot (mockData e))])"
    by (rule forwards_append)
  moreover have "trace (step x s) = trace s @ (suf @ [Respond 200 (JSnapshot (mockData e))])"
    using GetDashboard suf(1) by (simp add: getDashboard_def load_char respond_def stringify_new)
  ultimately show ?thesis by blast
next
  case PostPredict
  then show ?thesis using forwards_runPrediction[of Responding s] by (simp add: postPredict_def)
next
  case GetLastPrediction
  have "forwards (clients s) [Respond st body]" for st body
    by (rule forwards_Respond[OF forwards_Nil])
  then show ?thesis using GetLastPrediction
    by (simp add: getLastPrediction_def respond_def split: option.split)
next
  case (Interval e)
  then show ?thesis using forwards_tick[of e s] by simp
next
  case (Timeout e)
  then show ?thesis using forwards_timeout[of e s] by simp
qed

lemma nextClient_step:
  "nextClient (step x s) = (case x of Connection \<Rightarrow> Suc (nextClient s) | _ \<Rightarrow> nextClient s)"
proof (cases x)
  case (Startup e)
  then show ?thesis by (simp add: load_char)
next
  case Connection
  then show ?thesis by (simp add: onConnection_fields)
next
  case (WsMessage c m e)
  then show ?thesis by (simp add: onMessage_def load_char runPrediction_fields)
next
  case (WsClosing c)
  then show ?thesis by (simp add: onClosing_def)
next
  case (WsClose c)
  then show ?thesis by (simp add: onClose_def)
next
  case (GetDashboard e)
  then show ?thesis by (simp add: getDashboard_def load_char respond_def)
next
  case PostPredict
  then show ?thesis by (simp add: postPredict_def runPrediction_fields)
next
  case GetLastPrediction
  then show ?thesis by (simp add: getLastPrediction_def respond_def split: option.split)
next
  case (Interval e)
  have "nextClient (simulatePriceUpdate e s) = nextClient s"
    by (simp add: simulatePriceUpdate_def Let_def alloc_def slice_def emit_def broadcast_def
        split: option.split obj.split)
  then show ?thesis using Interval by simp
next
  case (Timeout e)
  have "nextClient (timeout e s) = nextClient s"
    by (cases "pending s") (simp_all add: timeout_idle timeout_char resume_fields)
  then show ?thesis using Timeout by simp
qed

lemma clients_step:
  "set (map cid (clients (step x s))) \<subseteq>
     set (map cid (clients s)) \<union> (case x of Connection \<Rightarrow> {nextClient s} | _ \<Rightarrow> {})"
proof (cases x)
  case (Startup e)
  then show ?thesis by (simp add: load_char)
next
  case Connection
  then show ?thesis by (auto simp: onConnection_fields)
next
  case (WsMessage c m e)
  then show ?thesis by (simp add: onMessage_def load_char runPrediction_fields)
next
  case (WsClosing c)
  have "map cid (map (\<lambda>x. if cid x = c then x\<lparr>readyState := CLOSING\<rparr> else x) (clients s)) =
      map cid (clients s)"
    by (induction "clients s") (auto simp: comp_def)
  then show ?thesis using WsClosing by (simp add: onClosing_def)
next
  case (WsClose c)
  then show ?thesis by (auto simp: onClose_def)
next
  case (GetDashboard e)
  then show ?thesis by (simp add: getDashboard_def load_char respond_def)
next
  case PostPredict
  then show ?thesis by (simp add: postPredict_def runPrediction_fields)
next
  case GetLastPrediction
  then show ?thesis by (simp add: getLastPrediction_def respond_def split: option.split)
next
  case (Interval e)
  have "clients (simulatePriceUpdate e s) = clients s"
    by (simp add: simulatePriceUpdate_def Let_def alloc_def slice_def emit_def broadcast_def
        split: option.split obj.split)
  then show ?thesis using Interval by simp
next
  case (Timeout e)
  have "clients (timeout e s) = clients s"
    by (cases "pending s") (simp_all add: timeout_idle timeout_char resume_fields)
  then show ?thesis using Timeout by simp
qed

lemma trace_onConnection:
  "trace (onConnection s) =
     trace s @
     (case currentData s of
        None \<Rightarrow> []
      | Some a \<Rightarrow> [Send (nextClient s) (Message ''initialData'' (stringify (heap s) a))])"
  by (simp add: onConnection_def Let_def split: option.split)

lemma fresh_step:
  assumes ids: "\<forall>c\<in>set (map cid (clients s)). c < nextClient s"
    and none: "\<forall>c. nextClient s \<le> c \<longrightarrow> inbox c (trace s) = []"
  shows "(\<forall>c\<in>set (map cid (clients (step x s))). c < nextClient (step x s)) \<and>
         (\<forall>c. nextClient (step x s) \<le> c \<longrightarrow> inbox c (trace (step x s)) = [])"
proof (cases "x = Connection")
  case True
  have 1: "\<forall>c\<in>set (map cid (clients (onConnection s))). c < nextClient (onConnection s)"
    using ids by (auto simp: onConnection_fields)
  have 2: "inbox c (trace (onConnection s)) = []" if "nextClient (onConnection s) \<le> c" for c
  proof -
    from that have c: "nextClient s < c" by (simp add: onConnection_fields)
    then have "inbox c (trace s) = []" using none by simp
    then show ?thesis using c
      by (simp add: trace_onConnection inbox_append split: option.split)
  qed
  from 1 2 show ?thesis using True by simp
next
  case False
  then have n: "nextClient (step x s) = nextClient s"
    unfolding nextClient_step by (cases x) simp_all
  from False have "set (map cid (clients (step x s))) \<subseteq> set (map cid (clients s))"
    using clients_step[of x s] by (cases x) simp_all
  then have 1: "\<forall>c\<in>set (map cid (clients (step x s))). c < nextClient (step x s)"
    using ids unfolding n by blast
  obtain suf where suf: "trace (step x s) = trace s @ suf" "forwards (clients s) suf"
    using forwards_step[OF False, of s] by blast
  have 2: "inbox c (trace (step x s)) = []" if "nextClient (step x s) \<le> c" for c
  proof -
    from that have c: "nextClient s \<le> c" by (simp only: n)
    then have "c \<notin> set (map cid (clients s))" using ids by auto
    then have "inbox c suf = []" using suf(2) unfolding forwards_def by blast
    moreover have "inbox c (trace s) = []" using none c by simp
    ultimately show ?thesis by (simp add: suf(1) inbox_append)
  qed
  from 1 2 show ?thesis by blast
qed

lemma fresh_run:
  assumes "\<forall>c\<in>set (map cid (clients s)). c < nextClient s"
    and "\<forall>c. nextClient s \<le> c \<longrightarrow> inbox c (trace s) = []"
  shows "(\<forall>c\<in>set (map cid (clients (run xs s))). c < nextClient (run xs s)) \<and>
         (\<forall>c. nextClient (run xs s) \<le> c \<longrightarrow> inbox c (trace (run xs s)) = [])"
  using assms
proof (induction xs arbitrary: s)
  case Nil
  then show ?case by simp
next
  case (Cons x xs)
  from fresh_step[OF Cons.prems, of x]
  have "\<forall>c\<in>set (map cid (clients (step x s))). c < nextClient (step x s)"
    "\<forall>c. nextClient (step x s) \<le> c \<longrightarrow> inbox c (trace (step x s)) = []"
    by blast+
  then show ?case using Cons.IH[of "step x s"] by simp
qed

lemma fresh_reachable: "inbox (nextClient (run xs constructed)) (trace (run xs constructed)) = []"
proof -
  have "(\<forall>c\<in>set (map cid (clients (run xs constructed))). c < nextClient (run xs constructed)) \<and>
      (\<forall>c. nextClient (run xs constructed) \<le> c \<longrightarrow> inbox c (trace (run xs constructed)) = [])"
    by (rule fresh_run) (simp_all add: constructed_def)
  then show ?thesis by blast
qed

lemma later_step:
  assumes "c < nextClient s"
  shows "c < nextClient (step x s) \<and>
    (\<exists>rest. inbox c (trace (step x s)) = inbox c (trace s) @ rest \<and>
       ''initialData'' \<notin> set (map mtype rest))"
proof (cases "x = Connection")
  case True
  have "inbox c (trace (onConnection s)) = inbox c (trace s) @ []"
    using assms by (simp add: trace_onConnection inbox_append split: option.split)
  moreover have "c < nextClient (onConnection s)" using assms by (simp add: onConnection_fields)
  ultimately show ?thesis using True by (intro conjI exI[of _ "[]"]) simp_all
next
  case False
  then have n: "nextClient (step x s) = nextClient s"
    unfolding nextClient_step by (cases x) simp_all
  obtain suf where suf: "trace (step x s) = trace s @ suf" "forwards (clients s) suf"
    using forwards_step[OF False, of s] by blast
  have "''initialData'' \<notin> set (map mtype (inbox c suf))"
    using suf(2) unfolding forwards_def by blast
  moreover have "inbox c (trace (step x s)) = inbox c (trace s) @ inbox c suf"
    by (simp add: suf(1) inbox_append)
  ultimately show ?thesis using assms n by (intro conjI exI[of _ "inbox c suf"]) simp_all
qed

lemma later_run:
  assumes "c < nextClient s"
  shows "\<exists>rest. inbox c (trace (run xs s)) = inbox c (trace s) @ rest \<and>
       ''initialData'' \<notin> set (map mtype rest)"
  using assms
proof (induction xs arbitrary: s)
  case Nil
  show ?case by (intro exI[of _ "[]"]) simp
next
  case (Cons x xs)
  from later_step[OF Cons.prems, of x] obtain r1 where
    n: "c < nextClient (step x s)"
    and r1: "inbox c (trace (step x s)) = inbox c (trace s) @ r1" "''initialData'' \<notin> set (map mtype r1)"
    by blast
  from Cons.IH[OF n] obtain r2 where
    r2: "inbox c (trace (run xs (step x s))) = inbox c (trace (step x s)) @ r2"
      "''initialData'' \<notin> set (map mtype r2)"
    by blast
  have "inbox c (trace (run (x # xs) s)) = inbox c (trace s) @ (r1 @ r2)"
    using r1(1) r2(1) by simp
  moreover have "''initialData'' \<notin> set (map mtype (r1 @ r2))" using r1(2) r2(2) by simp
  ultimately show ?case by blast
qed

subsection \<open>Payloads and the dashboard's own objects\<close>

lemma storeView_assign:
  assumes "\<not> ownedByStore s a"
  shows "storeView (assign a ob s) = storeView s"
proof -
  from assms have c: "a \<noteq> priceChartData s" and cur: "currentData s \<noteq> Some a"
    and lp: "lastPrediction s \<noteq> Some a"
    and el: "a \<notin> set (elements (heap s) (priceChartData s))"
    by (simp_all add: ownedByStore_def)
  have d: "deref ((heap s)[a := ob]) b = deref (heap s) b" if "b \<noteq> a" for b
    using that by (simp add: deref_def)
  have 1: "currentSnapshot (assign a ob s) = currentSnapshot s"
    using cur by (cases "currentData s") (simp_all add: currentSnapshot_def assign_def d)
  have 2: "storedPrediction (assign a ob s) = storedPrediction s"
    using lp by (cases "lastPrediction s") (simp_all add: storedPrediction_def assign_def d)
  have e: "elements ((heap s)[a := ob]) (priceChartData s) = elements (heap s) (priceChartData s)"
    using c by (simp add: elements_def d)
  have "map (deref ((heap s)[a := ob])) (elements (heap s) (priceChartData s)) =
      map (deref (heap s)) (elements (heap s) (priceChartData s))"
    using el by (intro map_cong refl d) auto
  then have 3: "chartHistory (assign a ob s) = chartHistory s"
    by (simp add: chartHistory_def chartOf_def assign_def e)
  from 1 2 3 show ?thesis by (simp add: storeView_def)
qed

lemma wf_elements_less:
  assumes "wf s" "b \<in> set (elements (heap s) (priceChartData s))"
  shows "b < length (heap s)"
proof -
  from assms(1) obtain xs where xs: "deref (heap s) (priceChartData s) = Some (Array xs)"
    and pts: "\<forall>a\<in>set xs. \<exists>p. deref (heap s) a = Some (Point p)"
    unfolding wf_def wfStore_def by blast
  from xs have "elements (heap s) (priceChartData s) = xs" by (simp add: elements_def)
  with assms(2) pts obtain p where "deref (heap s) b = Some (Point p)" by blast
  then show ?thesis by (rule deref_Some_less)
qed

lemma fresh_not_owned_tick:
  assumes w: "wf s" and a: "currentData s = Some a" and d: "deref (heap s) a = Some (Snapshot d)"
    and k: "k = Suc (Suc (length (heap s))) \<or> k = Suc (Suc (Suc (length (heap s))))"
  shows "\<not> ownedByStore (simulatePriceUpdate e s) k"
proof -
  have c: "priceChartData s < length (heap s)"
    using w unfolding wf_def by (rule wfStore_chart_less)
  have lp: "lastPrediction s \<noteq> Some k"
  proof
    assume l: "lastPrediction s = Some k"
    with w obtain p where "deref (heap s) k = Some (Prediction p)" by (rule wf_prediction)
    then have "k < length (heap s)" by (rule deref_Some_less)
    with k show False by auto
  qed
  have el: "k \<notin> set (fifo (elements (heap s) (priceChartData s) @ [Suc (length (heap s))]))"
  proof
    assume "k \<in> set (fifo (elements (heap s) (priceChartData s) @ [Suc (length (heap s))]))"
    with set_fifo have "k \<in> set (elements (heap s) (priceChartData s) @ [Suc (length (heap s))])"
      by (rule subsetD)
    then consider "k \<in> set (elements (heap s) (priceChartData s))" | "k = Suc (length (heap s))"
      by auto
    then show False
    proof cases
      case 1
      with w have "k < length (heap s)" by (rule wf_elements_less)
      with k show False by auto
    next
      case 2
      with k show False by auto
    qed
  qed
  show ?thesis
    using c k lp el
    by (auto simp: ownedByStore_def heap_tick[OF a d] elements_tickStore')
qed


section \<open>The claims\<close>

text \<open>
  C1. After every sequence of callbacks the chart history has at most 30 entries; it holds
  the last 30 of the points the price updates generated, in the order they were generated;
  and a price update that finds 30 entries drops the oldest and appends the new point.
\<close>

theorem history_bounded_fifo:
  "length (elements (heap (run ops constructed)) (priceChartData (run ops constructed))) \<le> 30 \<and>
   chartHistory (run ops constructed) =
     lastN 30 (map (\<lambda>p. Some (Point p)) (generated ops constructed)) \<and>
   chartHistory (step (Interval e) (run ops constructed)) =
     (case tickOf e (run ops constructed) of
        None \<Rightarrow> chartHistory (run ops constructed)
      | Some p \<Rightarrow>
          (if length (chartHistory (run ops constructed)) < 30
           then chartHistory (run ops constructed) @ [Some (Point p)]
           else tl (chartHistory (run ops constructed)) @ [Some (Point p)]))"
proof -
  let ?s = "run ops constructed"
  have eq: "chartHistory ?s = lastN 30 (map (\<lambda>p. Some (Point p)) (generated ops constructed))"
    by (rule chartHistory_reachable)
  have len: "length (chartHistory ?s) \<le> 30"
    unfolding eq by (rule length_lastN)
  have step: "chartHistory (step (Interval e) ?s) =
      (case tickOf e ?s of None \<Rightarrow> chartHistory ?s | Some p \<Rightarrow> appendPoint (chartHistory ?s) p)"
    using chartHistory_tick[OF wf_reachable, of e ops] by simp
  have app: "appendPoint (chartHistory ?s) p =
      (if length (chartHistory ?s) < 30 then chartHistory ?s @ [Some (Point p)]
       else tl (chartHistory ?s) @ [Some (Point p)])" for p
  proof (cases "length (chartHistory ?s) < 30")
    case True
    then show ?thesis by (simp add: appendPoint_def fifo_def)
  next
    case False
    with len have "length (chartHistory ?s) = 30" by simp
    then have "chartHistory ?s \<noteq> []" by auto
    then show ?thesis using False len by (simp add: appendPoint_def fifo_def)
  qed
  have bound: "length (elements (heap ?s) (priceChartData ?s)) \<le> 30"
    using len by (simp only: length_chartHistory)
  have fifo: "chartHistory (step (Interval e) ?s) =
      (case tickOf e ?s of
         None \<Rightarrow> chartHistory ?s
       | Some p \<Rightarrow>
           (if length (chartHistory ?s) < 30 then chartHistory ?s @ [Some (Point p)]
            else tl (chartHistory ?s) @ [Some (Point p)]))"
  proof (cases "tickOf e ?s")
    case None
    then show ?thesis by (simp only: step option.case)
  next
    case (Some p)
    then show ?thesis by (simp only: step option.case app)
  qed
  from bound eq fifo show ?thesis by (intro conjI)
qed

text \<open>
  C3. \<^verbatim>\<open>predictionStarted\<close> is emitted exactly when \<^verbatim>\<open>runPrediction\<close> finds the flag
  clear, and then the flag is set and a timer is started; with the flag set the call
  emits nothing and only lets its caller go on. Of two calls in a row on an idle
  dashboard the second does nothing, and the one timer emits one
  \<^verbatim>\<open>predictionComplete\<close>; a further timer callback finds nothing to do.
\<close>

theorem predictionStarted_iff_cycle_begins:
  "(emitted (trace (runPrediction k s)) = emitted (trace s) @ [PredictionStarted]) = (\<not> isLoading s) \<and>
   (pending (runPrediction k s) = pending s @ [k]) = (\<not> isLoading s) \<and>
   isLoading (runPrediction k s) \<and>
   (isLoading s \<longrightarrow>
      runPrediction k s = resume k s \<and>
      emitted (trace (runPrediction k s)) = emitted (trace s)) \<and>
   (\<not> isLoading s \<and> pending s = [] \<longrightarrow>
      emitted (trace (runPrediction Detached (runPrediction Detached s))) =
        emitted (trace s) @ [PredictionStarted] \<and>
      pending (runPrediction Detached (runPrediction Detached s)) = [Detached] \<and>
      emitted (trace (timeout e (runPrediction Detached (runPrediction Detached s)))) =
        emitted (trace s) @ [PredictionStarted, PredictionComplete (length (heap s))] \<and>
      pending (timeout e (runPrediction Detached (runPrediction Detached s))) = [] \<and>
      timeout e' (timeout e (runPrediction Detached (runPrediction Detached s))) =
        timeout e (runPrediction Detached (runPrediction Detached s)))"
proof (cases "isLoading s")
  case True
  then show ?thesis
    by (simp add: runPrediction_busy emitted_resume resume_fields)
next
  case False
  have one: "runPrediction k s =
      s\<lparr>isLoading := True, pending := pending s @ [k], trace := trace s @ [Emit PredictionStarted]\<rparr>" for k
    using False by (rule runPrediction_idle)
  have two: "runPrediction Detached (runPrediction Detached s) = runPrediction Detached s"
    by (simp add: one runPrediction_busy)
  have three: "pending s = [] \<Longrightarrow> timeout e (runPrediction Detached s) =
      s\<lparr>heap := heap s @ [Prediction (newPrediction e)],
        lastPrediction := Some (length (heap s)), isLoading := False, pending := [],
        trace := trace s @ Emit PredictionStarted # Emit (PredictionComplete (length (heap s))) #
                 sends ''predictionResult'' (JPrediction (newPrediction e)) (clients s)\<rparr>"
    by (simp add: one timeout_char[where k = Detached and ks = "[]"])
  show ?thesis
    using False by (simp add: two three timeout_idle emitted_append emitted_sends) (simp add: one emitted_append)
qed

theorem predictionStarted_iff_cycle_begins_witness:
  "\<not> isLoading constructed \<and> pending constructed = [] \<and>
   emitted (trace (runPrediction Detached constructed)) = [PredictionStarted] \<and>
   emitted (trace (timeout envHalf (runPrediction Detached (runPrediction Detached constructed)))) =
     [PredictionStarted, PredictionComplete 1] \<and>
   isLoading (runPrediction Detached constructed) \<and>
   emitted (trace (runPrediction Responding (runPrediction Detached constructed))) = [PredictionStarted]"
  using predictionStarted_iff_cycle_begins[of Detached constructed envHalf envHalf]
    predictionStarted_iff_cycle_begins[of Responding "runPrediction Detached constructed" envHalf envHalf]
  by (simp add: constructed_def runPrediction_def emit_def respond_def)

text \<open>
  C5, as the claim reads: the percentage is \<open>priceChange / previousPrice * 100\<close> rounded
  to two decimal places, and the new price is the previous price plus the delta. After the
  load at start-up and a price update with the draw \<open>7182725400582741 / 2\<^sup>5\<^sup>3\<close> the price
  is \<^verbatim>\<open>9141.874427119286\<close>. The next update, with the draw \<open>3692796792905703 / 2\<^sup>5\<^sup>2\<close>,
  has a delta of \<^verbatim>\<open>3.199656049491695\<close>, stores a price that is not the sum of the two, and
  stores the change \<^verbatim>\<open>3.1996560494917503\<close> and the percentage \<^verbatim>\<open>0.03\<close>, while the
  quotient of that change and that price, times 100, is above 0.035 and rounds to 0.04.
\<close>

theorem percent_not_the_rounded_quotient:
  "validRandom envFirst \<and> validRandom envSecond \<and>
   currentSnapshot (run [Startup envHalf, Interval envFirst] constructed) =
     Some (Snapshot (tickSnapshot envFirst (mockData envHalf))) \<and>
   currentPrice (tickSnapshot envFirst (mockData envHalf)) = Fin (5025798616142857 / 549755813888) \<and>
   delta envSecond = Fin (7204984896102275 / 2251799813685248) \<and>
   currentSnapshot (run [Startup envHalf, Interval envFirst, Interval envSecond] constructed) =
     Some (Snapshot (tickSnapshot envSecond (tickSnapshot envFirst (mockData envHalf)))) \<and>
   currentPrice (tickSnapshot envSecond (tickSnapshot envFirst (mockData envHalf))) =
     Fin (5027557645658507 / 549755813888) \<and>
   (5027557645658507 / 549755813888 :: rat) \<noteq>
     5025798616142857 / 549755813888 + 7204984896102275 / 2251799813685248 \<and>
   priceChange (tickSnapshot envSecond (tickSnapshot envFirst (mockData envHalf))) =
     Fin (879514757825 / 274877906944) \<and>
   priceChangePercent (tickSnapshot envSecond (tickSnapshot envFirst (mockData envHalf))) =
     StrV (Decimal False 3 2) \<and>
   (35 / 1000 :: rat) < 879514757825 / 274877906944 / (5025798616142857 / 549755813888) * 100 \<and>
   toFixed 2 (Fin (879514757825 / 274877906944 / (5025798616142857 / 549755813888) * 100)) =
     Decimal False 4 2"
proof -
  let ?d = "tickSnapshot envFirst (mockData envHalf)"
  let ?s = "simulatePriceUpdate envFirst started"
  have 1: "currentSnapshot (run [Startup envHalf, Interval envFirst] constructed) = Some (Snapshot ?d)"
    by (simp only: tick_started(1,2))
  have r: "run [Startup envHalf, Interval envFirst, Interval envSecond] constructed =
      simulatePriceUpdate envSecond ?s"
    by (simp add: started_def)
  have "wf (run [Startup envHalf, Interval envFirst] constructed)" by (rule wf_reachable)
  then have w: "wf ?s" by (simp only: tick_started(1))
  have 2: "currentSnapshot (run [Startup envHalf, Interval envFirst, Interval envSecond] constructed) =
      Some (Snapshot (tickSnapshot envSecond ?d))"
    unfolding r using w tick_started(3) tick_started(4) by (rule currentSnapshot_tick)
  have 3: "(5027557645658507 / 549755813888 :: rat) \<noteq>
      5025798616142857 / 549755813888 + 7204984896102275 / 2251799813685248"
    by simp
  have 4: "(35 / 1000 :: rat) <
      879514757825 / 274877906944 / (5025798616142857 / 549755813888) * 100"
    by simp
  have 5: "toFixed 2 (Fin (879514757825 / 274877906944 / (5025798616142857 / 549755813888) * 100)) =
      Decimal False 4 2"
    by (simp add: floor_rat_numeral)
  from validRandom_constant(4) validRandom_constant(5) 1 tick_first delta_second 2 tick_second(1) 3
    tick_second(2) tick_second(3) 4 5
  show ?thesis by (intro conjI)
qed

text \<open>
  C5, amended. In a state the server can reach, \<^verbatim>\<open>simulatePriceUpdate\<close> changes nothing
  when there is no snapshot. Otherwise, in double arithmetic: the new price is the sum of
  the previous price and the delta \<^verbatim>\<open>(Math.random() - 0.5) * 10\<close>, rounded to a double
  (when the three are finite it is within half a unit in the last place of the exact
  sum); the change is the new price minus the previous one, rounded; the percentage is
  \<^verbatim>\<open>(change / previousPrice * 100).toFixed(2)\<close>, and whenever that product is a finite
  double below \<open>10\<^sup>2\<^sup>1\<close> it is the decimal string with two places nearest to the double.
  The point is appended to the chart history and the oldest entry leaves a list of 30,
  and the trace gets \<^verbatim>\<open>priceUpdate\<close> with the three numbers, then \<^verbatim>\<open>chartUpdate\<close> with
  a new array that has the history's entries. A draw in \<open>[0, 1)\<close> gives a finite delta of
  magnitude at most 5.
\<close>

theorem tick_effect_in_doubles:
  assumes "s = run ops constructed"
  shows "(currentData s = None \<longrightarrow> simulatePriceUpdate e s = s) \<and>
    (\<forall>a. currentData s = Some a \<longrightarrow>
       (\<exists>d. deref (heap s) a = Some (Snapshot d) \<and>
          currentSnapshot (simulatePriceUpdate e s) = Some (Snapshot (tickSnapshot e d)) \<and>
          currentPrice (tickSnapshot e d) = fadd (currentPrice d) (delta e) \<and>
          (\<forall>p x v. currentPrice d = Fin p \<and> delta e = Fin x \<and>
                   currentPrice (tickSnapshot e d) = Fin v \<longrightarrow>
             \<bar>v - (p + x)\<bar> \<le> pow2 (binade \<bar>p + x\<bar> - 52) / 2) \<and>
          priceChange (tickSnapshot e d) = fsub (currentPrice (tickSnapshot e d)) (currentPrice d) \<and>
          priceChangePercent (tickSnapshot e d) =
            StrV (toFixed 2 (fmul (fdiv (priceChange (tickSnapshot e d)) (currentPrice d)) (Fin 100))) \<and>
          (\<forall>x. fmul (fdiv (priceChange (tickSnapshot e d)) (currentPrice d)) (Fin 100) = Fin x \<and>
                \<bar>x\<bar> < 10 ^ 21 \<longrightarrow>
             (\<exists>neg n. priceChangePercent (tickSnapshot e d) = StrV (Decimal neg n 2) \<and>
                \<bar>(if neg then - 1 else 1) * of_nat n / 10 ^ 2 - x\<bar> \<le> 1 / (2 * 10 ^ 2))) \<and>
          chartHistory (simulatePriceUpdate e s) =
            (if length (chartHistory s) < 30 then chartHistory s else tl (chartHistory s)) @
            [Some (Point \<lparr>timestamp = now e, price = currentPrice (tickSnapshot e d)\<rparr>)] \<and>
          (\<exists>ua ca.
             trace (simulatePriceUpdate e s) =
               trace s @
               Emit (PriceUpdate ua) #
               sends ''priceUpdate''
                 (JPriceData \<lparr>currentPrice = currentPrice (tickSnapshot e d),
                               priceChange = priceChange (tickSnapshot e d),
                               priceChangePercent = priceChangePercent (tickSnapshot e d)\<rparr>)
                 (clients s) @
               Emit (ChartUpdate ca) #
               sends ''chartUpdate''
                 (stringify (heap (simulatePriceUpdate e s)) (priceChartData (simulatePriceUpdate e s)))
                 (clients s) \<and>
             ca \<noteq> priceChartData (simulatePriceUpdate e s) \<and>
             deref (heap (simulatePriceUpdate e s)) ca =
               Some (Array (elements (heap (simulatePriceUpdate e s))
                              (priceChartData (simulatePriceUpdate e s))))))) \<and>
    (validRandom e \<longrightarrow> (\<exists>x. delta e = Fin x \<and> \<bar>x\<bar> \<le> 5))"
proof (intro conjI allI impI)
  assume "currentData s = None"
  then show "simulatePriceUpdate e s = s" by (rule tick_none)
next
  assume "validRandom e"
  then have "0 \<le> mathRandom e 0" "mathRandom e 0 < 1" by (simp_all add: validRandom_def)
  then show "\<exists>x. delta e = Fin x \<and> \<bar>x\<bar> \<le> 5" by (rule delta_bounded)
next
  fix a
  assume a: "currentData s = Some a"
  have w: "wf s" unfolding assms by (rule wf_reachable)
  then obtain d where d: "deref (heap s) a = Some (Snapshot d)"
    using a by (rule wf_snapshot)
  let ?s' = "simulatePriceUpdate e s"
  let ?d' = "tickSnapshot e d"
  have c: "priceChartData s < length (heap s)"
    using w unfolding wf_def by (rule wfStore_chart_less)
  have len: "length (chartHistory s) \<le> 30"
    unfolding assms chartHistory_reachable by (rule length_lastN)
  have price: "currentPrice ?d' = fadd (currentPrice d) (delta e)"
    by (rule tickSnapshot_fields(1))
  have near: "\<forall>p x v. currentPrice d = Fin p \<and> delta e = Fin x \<and> currentPrice ?d' = Fin v \<longrightarrow>
      \<bar>v - (p + x)\<bar> \<le> pow2 (binade \<bar>p + x\<bar> - 52) / 2"
  proof (intro allI impI)
    fix p x v
    assume h: "currentPrice d = Fin p \<and> delta e = Fin x \<and> currentPrice ?d' = Fin v"
    from h have p: "currentPrice d = Fin p" by blast
    from h have x: "delta e = Fin x" by blast
    from h have "currentPrice ?d' = Fin v" by blast
    then have "rnd (p + x) = Fin v" unfolding price p x by simp
    then show "\<bar>v - (p + x)\<bar> \<le> pow2 (binade \<bar>p + x\<bar> - 52) / 2" by (rule rnd_half_ulp)
  qed
  have change: "priceChange ?d' = fsub (currentPrice ?d') (currentPrice d)"
    by (rule tickSnapshot_fields(2))
  have percent: "priceChangePercent ?d' =
      StrV (toFixed 2 (fmul (fdiv (priceChange ?d') (currentPrice d)) (Fin 100)))"
    by (rule tickSnapshot_fields(3))
  have rounded: "\<forall>x. fmul (fdiv (priceChange ?d') (currentPrice d)) (Fin 100) = Fin x \<and>
        \<bar>x\<bar> < 10 ^ 21 \<longrightarrow>
      (\<exists>neg n. priceChangePercent ?d' = StrV (Decimal neg n 2) \<and>
        \<bar>(if neg then - 1 else 1) * of_nat n / 10 ^ 2 - x\<bar> \<le> 1 / (2 * 10 ^ 2))"
  proof (intro allI impI)
    fix x
    assume "fmul (fdiv (priceChange ?d') (currentPrice d)) (Fin 100) = Fin x \<and> \<bar>x\<bar> < 10 ^ 21"
    then have x: "fmul (fdiv (priceChange ?d') (currentPrice d)) (Fin 100) = Fin x"
      and small: "\<bar>x\<bar> < 10 ^ 21" by blast+
    have "priceChangePercent ?d' = StrV (toFixed 2 (Fin x))"
      by (simp only: percent x)
    then show "\<exists>neg n. priceChangePercent ?d' = StrV (Decimal neg n 2) \<and>
        \<bar>(if neg then - 1 else 1) * of_nat n / 10 ^ 2 - x\<bar> \<le> 1 / (2 * 10 ^ 2)"
      using toFixed_rounds[OF small, of 2] by (simp only:) blast
  qed
  have hist: "chartHistory ?s' =
      (if length (chartHistory s) < 30 then chartHistory s else tl (chartHistory s)) @
      [Some (Point \<lparr>timestamp = now e, price = currentPrice ?d'\<rparr>)]"
  proof -
    have "chartHistory ?s' = fifo (chartHistory s @ [Some (Point (tickPoint e d))])"
      using chartHistory_tick[OF w, of e] by (simp add: tickOf_Some[OF a d] appendPoint_def)
    moreover have "tickPoint e d = \<lparr>timestamp = now e, price = currentPrice ?d'\<rparr>"
      by (simp add: tickPoint_def tickSnapshot_def)
    moreover have "fifo (chartHistory s @ [x]) =
        (if length (chartHistory s) < 30 then chartHistory s else tl (chartHistory s)) @ [x]" for x
    proof (cases "length (chartHistory s) < 30")
      case True
      then show ?thesis by (simp add: fifo_def)
    next
      case False
      with len have "length (chartHistory s) = 30" by simp
      then have "chartHistory s \<noteq> []" by auto
      then show ?thesis using False len by (simp add: fifo_def)
    qed
    ultimately show ?thesis by simp
  qed
  have tr: "trace ?s' =
      trace s @ Emit (PriceUpdate (Suc (Suc (length (heap s))))) #
        sends ''priceUpdate''
          (JPriceData \<lparr>currentPrice = currentPrice ?d', priceChange = priceChange ?d',
                        priceChangePercent = priceChangePercent ?d'\<rparr>) (clients s) @
        Emit (ChartUpdate (Suc (Suc (Suc (length (heap s)))))) #
        sends ''chartUpdate'' (stringify (heap ?s') (priceChartData ?s')) (clients s)"
    using trace_tick[OF w a d, of e] by (simp add: tickPayload_def heap_tick(2)[OF a d])
  have ne: "Suc (Suc (Suc (length (heap s)))) \<noteq> priceChartData ?s'"
    using c by (simp add: heap_tick(2)[OF a d])
  have copy: "deref (heap ?s') (Suc (Suc (Suc (length (heap s))))) =
      Some (Array (elements (heap ?s') (priceChartData ?s')))"
    using c by (simp add: heap_tick(1,2)[OF a d] deref_tickStore'_new elements_tickStore')
  show "\<exists>d. deref (heap s) a = Some (Snapshot d) \<and>
          currentSnapshot (simulatePriceUpdate e s) = Some (Snapshot (tickSnapshot e d)) \<and>
          currentPrice (tickSnapshot e d) = fadd (currentPrice d) (delta e) \<and>
          (\<forall>p x v. currentPrice d = Fin p \<and> delta e = Fin x \<and>
                   currentPrice (tickSnapshot e d) = Fin v \<longrightarrow>
             \<bar>v - (p + x)\<bar> \<le> pow2 (binade \<bar>p + x\<bar> - 52) / 2) \<and>
          priceChange (tickSnapshot e d) = fsub (currentPrice (tickSnapshot e d)) (currentPrice d) \<and>
          priceChangePercent (tickSnapshot e d) =
            StrV (toFixed 2 (fmul (fdiv (priceChange (tickSnapshot e d)) (currentPrice d)) (Fin 100))) \<and>
          (\<forall>x. fmul (fdiv (priceChange (tickSnapshot e d)) (currentPrice d)) (Fin 100) = Fin x \<and>
                \<bar>x\<bar> < 10 ^ 21 \<longrightarrow>
             (\<exists>neg n. priceChangePercent (tickSnapshot e d) = StrV (Decimal neg n 2) \<and>
                \<bar>(if neg then - 1 else 1) * of_nat n / 10 ^ 2 - x\<bar> \<le> 1 / (2 * 10 ^ 2))) \<and>
          chartHistory (simulatePriceUpdate e s) =
            (if length (chartHistory s) < 30 then chartHistory s else tl (chartHistory s)) @
            [Some (Point \<lparr>timestamp = now e, price = currentPrice (tickSnapshot e d)\<rparr>)] \<and>
          (\<exists>ua ca.
             trace (simulatePriceUpdate e s) =
               trace s @
               Emit (PriceUpdate ua) #
               sends ''priceUpdate''
                 (JPriceData \<lparr>currentPrice = currentPrice (tickSnapshot e d),
                               priceChange = priceChange (tickSnapshot e d),
                               priceChangePercent = priceChangePercent (tickSnapshot e d)\<rparr>)
                 (clients s) @
               Emit (ChartUpdate ca) #
               sends ''chartUpdate''
                 (stringify (heap (simulatePriceUpdate e s)) (priceChartData (simulatePriceUpdate e s)))
                 (clients s) \<and>
             ca \<noteq> priceChartData (simulatePriceUpdate e s) \<and>
             deref (heap (simulatePriceUpdate e s)) ca =
               Some (Array (elements (heap (simulatePriceUpdate e s))
                              (priceChartData (simulatePriceUpdate e s)))))"
    using d currentSnapshot_tick[OF w a d, of e] price near change percent rounded hist tr ne copy
    by blast
qed

theorem tick_effect_in_doubles_witness:
  "started = run [Startup envHalf] constructed \<and>
   currentData started = Some 1 \<and>
   validRandom envQuarter \<and>
   delta envQuarter = Fin (5 / 2) \<and>
   currentSnapshot started = Some (Snapshot (mockData envHalf)) \<and>
   currentPrice (mockData envHalf) = Fin (5024163407541043 / 549755813888) \<and>
   currentSnapshot (simulatePriceUpdate envQuarter started) =
     Some (Snapshot (tickSnapshot envQuarter (mockData envHalf))) \<and>
   currentPrice (tickSnapshot envQuarter (mockData envHalf)) = Fin (5025537797075763 / 549755813888) \<and>
   priceChange (tickSnapshot envQuarter (mockData envHalf)) = Fin (5 / 2) \<and>
   fmul (fdiv (priceChange (tickSnapshot envQuarter (mockData envHalf)))
          (currentPrice (mockData envHalf))) (Fin 100) =
     Fin (492794496861821 / 18014398509481984) \<and>
   \<bar>492794496861821 / 18014398509481984 :: rat\<bar> < 10 ^ 21 \<and>
   priceChangePercent (tickSnapshot envQuarter (mockData envHalf)) = StrV (Decimal False 3 2) \<and>
   currentData constructed = None \<and>
   simulatePriceUpdate envQuarter constructed = constructed"
proof -
  have s: "started = run [Startup envHalf] constructed" by (simp add: started_def)
  have c: "currentData started = Some 1" by (simp add: started_eq)
  have d: "deref (heap started) 1 = Some (Snapshot (mockData envHalf))"
    by (simp add: started_eq deref_def)
  have cs: "currentSnapshot started = Some (Snapshot (mockData envHalf))"
    using d by (simp add: currentSnapshot_def c)
  have p: "currentPrice (mockData envHalf) = Fin (5024163407541043 / 549755813888)"
    by (simp add: mockData_def lit_price)
  from tick_effect_in_doubles[OF s, of envQuarter] c obtain d' where
    "deref (heap started) 1 = Some (Snapshot d')"
    "currentSnapshot (simulatePriceUpdate envQuarter started) = Some (Snapshot (tickSnapshot envQuarter d'))"
    by blast
  with d have 1: "currentSnapshot (simulatePriceUpdate envQuarter started) =
      Some (Snapshot (tickSnapshot envQuarter (mockData envHalf)))" by simp
  have b: "\<bar>492794496861821 / 18014398509481984 :: rat\<bar> < 10 ^ 21" by simp
  have n: "currentData constructed = None" by (simp add: constructed_def)
  have e: "constructed = run [] constructed" by simp
  from tick_effect_in_doubles[OF e, of envQuarter] n
  have 3: "simulatePriceUpdate envQuarter constructed = constructed" by blast
  from s c validRandom_constant(2) delta_quarter cs p 1 tick_quarter(1) tick_quarter(2)
    tick_quarter(3) b tick_quarter(4) n 3
  show ?thesis by (intro conjI)
qed

text \<open>
  C7. In a state the server can reach, \<^verbatim>\<open>GET /api/last-prediction\<close> answers 404 with
  the error body when no \<^verbatim>\<open>predictionComplete\<close> has been emitted so far, and otherwise
  200 with the prediction object \<^verbatim>\<open>lastPrediction\<close> points to, which is the payload of
  the last \<^verbatim>\<open>predictionComplete\<close>.
\<close>

theorem lastPrediction_route:
  assumes "s = run ops constructed"
  shows "(completions (emitted (trace s)) = [] \<longrightarrow>
            trace (getLastPrediction s) =
              trace s @ [Respond 404 (JObject [(''error'', ''No prediction available'')])]) \<and>
         (completions (emitted (trace s)) \<noteq> [] \<longrightarrow>
            (\<exists>p. lastPrediction s = Some (last (completions (emitted (trace s)))) \<and>
                 storedPrediction s = Some (Prediction p) \<and>
                 trace (getLastPrediction s) = trace s @ [Respond 200 (JPrediction p)]))"
proof (intro conjI impI)
  have inv: "lastPrediction s =
      (case rev (completions (emitted (trace s))) of [] \<Rightarrow> None | a # as \<Rightarrow> Some a)"
    unfolding assms by (rule lastPrediction_reachable)
  {
    assume "completions (emitted (trace s)) = []"
    with inv have "lastPrediction s = None" by simp
    then show "trace (getLastPrediction s) =
        trace s @ [Respond 404 (JObject [(''error'', ''No prediction available'')])]"
      by (simp add: getLastPrediction_def respond_def)
  next
    assume ne: "completions (emitted (trace s)) \<noteq> []"
    then obtain ys y where ys: "completions (emitted (trace s)) = ys @ [y]"
      by (cases "completions (emitted (trace s))" rule: rev_cases) auto
    with inv have lp: "lastPrediction s = Some (last (completions (emitted (trace s))))" by simp
    have "wf s" unfolding assms by (rule wf_reachable)
    then obtain p where p: "deref (heap s) (last (completions (emitted (trace s)))) = Some (Prediction p)"
      using lp by (rule wf_prediction)
    have "storedPrediction s = Some (Prediction p)"
      using lp p by (simp add: storedPrediction_def)
    moreover have "trace (getLastPrediction s) = trace s @ [Respond 200 (JPrediction p)]"
      using lp p by (simp add: getLastPrediction_def respond_def stringify_def stringifyElement_def)
    ultimately show "\<exists>p. lastPrediction s = Some (last (completions (emitted (trace s)))) \<and>
                 storedPrediction s = Some (Prediction p) \<and>
                 trace (getLastPrediction s) = trace s @ [Respond 200 (JPrediction p)]"
      using lp by blast
  }
qed

theorem lastPrediction_route_witness:
  "started = run [Startup envHalf] constructed \<and>
   completions (emitted (trace started)) = [] \<and>
   trace (getLastPrediction started) =
     trace started @ [Respond 404 (JObject [(''error'', ''No prediction available'')])] \<and>
   completions (emitted (trace (run [PostPredict, Timeout envHalf] constructed))) \<noteq> [] \<and>
   responses (trace (getLastPrediction (run [PostPredict, Timeout envHalf] constructed))) =
     [(200, JObject [(''message'', ''Prediction started'')]),
      (200, JPrediction (newPrediction envHalf))]"
proof -
  have s: "started = run [Startup envHalf] constructed" by (simp add: started_def)
  have 1: "completions (emitted (trace started)) = []" by (simp add: started_eq)
  from lastPrediction_route[OF s] 1
  have 2: "trace (getLastPrediction started) =
      trace started @ [Respond 404 (JObject [(''error'', ''No prediction available'')])]"
    by blast
  let ?t = "run [PostPredict, Timeout envHalf] constructed"
  have t: "?t = \<lparr>heap = [Array [], Prediction (newPrediction envHalf)], priceChartData = 0,
      currentData = None, isLoading = False, lastPrediction = Some 1, clients = [], nextClient = 0,
      pending = [],
      trace = [Emit PredictionStarted, Emit (PredictionComplete 1),
               Respond 200 (JObject [(''message'', ''Prediction started'')])]\<rparr>"
    by (simp add: constructed_def postPredict_def runPrediction_def emit_def timeout_def
        simulatePrediction_def alloc_def broadcast_def sends_def respond_def)
  have 3: "completions (emitted (trace ?t)) \<noteq> []" unfolding t by simp
  from lastPrediction_route[OF refl, of "[PostPredict, Timeout envHalf]"] 3
  obtain p where "storedPrediction ?t = Some (Prediction p)"
    "trace (getLastPrediction ?t) = trace ?t @ [Respond 200 (JPrediction p)]" by blast
  moreover have "storedPrediction ?t = Some (Prediction (newPrediction envHalf))"
    unfolding t by (simp add: storedPrediction_def deref_def)
  ultimately have "trace (getLastPrediction ?t) =
      trace ?t @ [Respond 200 (JPrediction (newPrediction envHalf))]" by simp
  then have 4: "responses (trace (getLastPrediction ?t)) =
     [(200, JObject [(''message'', ''Prediction started'')]),
      (200, JPrediction (newPrediction envHalf))]"
    unfolding t by simp
  from s 1 2 3 4 show ?thesis by (intro conjI)
qed

text \<open>
  C10. In a state the server can reach, \<^verbatim>\<open>loadDashboardData\<close> adds one object to the
  store, the new snapshot with its 30 historical points inside, makes \<^verbatim>\<open>currentData\<close>
  point to it and leaves the flag clear. \<^verbatim>\<open>priceChartData\<close>, the chart history it
  holds, \<^verbatim>\<open>lastPrediction\<close> and the prediction it points to, the timers and the clients
  are as before, through each of the three places that call it. The chart history holds
  only points that price updates generated.
\<close>

theorem load_frame:
  assumes "s = run ops constructed"
  shows "heap (snd (loadDashboardData e s)) = heap s @ [Snapshot (mockData e)] \<and>
    fst (loadDashboardData e s) = length (heap s) \<and>
    currentData (snd (loadDashboardData e s)) = Some (length (heap s)) \<and>
    length (historicalPrices (mockData e)) = 30 \<and>
    isLoading (snd (loadDashboardData e s)) = False \<and>
    priceChartData (snd (loadDashboardData e s)) = priceChartData s \<and>
    chartHistory (snd (loadDashboardData e s)) = chartHistory s \<and>
    lastPrediction (snd (loadDashboardData e s)) = lastPrediction s \<and>
    storedPrediction (snd (loadDashboardData e s)) = storedPrediction s \<and>
    pending (snd (loadDashboardData e s)) = pending s \<and>
    clients (snd (loadDashboardData e s)) = clients s \<and>
    chartHistory (step (Startup e) s) = chartHistory s \<and>
    chartHistory (step (GetDashboard e) s) = chartHistory s \<and>
    chartHistory (step (WsMessage c ''getDashboardData'' e) s) = chartHistory s \<and>
    lastPrediction (step (Startup e) s) = lastPrediction s \<and>
    lastPrediction (step (GetDashboard e) s) = lastPrediction s \<and>
    lastPrediction (step (WsMessage c ''getDashboardData'' e) s) = lastPrediction s \<and>
    set (chartHistory s) \<subseteq> (\<lambda>p. Some (Point p)) ` set (generated ops constructed)"
proof -
  have w: "wf s" unfolding assms by (rule wf_reachable)
  have sp: "storedPrediction (snd (loadDashboardData e s)) = storedPrediction s"
    using storedPrediction_append[OF w, of "[Snapshot (mockData e)]"]
    by (simp add: load_char storedPrediction_def cong: option.case_cong)
  have ch: "chartHistory (step x s) = chartHistory s" if "pushedBy x s = []" for x
    using chartHistory_step[OF w, of x] that by simp
  have "set (chartHistory s) \<subseteq> set (map (\<lambda>p. Some (Point p)) (generated ops constructed))"
    unfolding assms chartHistory_reachable by (rule set_lastN)
  then have gen: "set (chartHistory s) \<subseteq> (\<lambda>p. Some (Point p)) ` set (generated ops constructed)"
    by simp
  have fields: "heap (snd (loadDashboardData e s)) = heap s @ [Snapshot (mockData e)]"
    "fst (loadDashboardData e s) = length (heap s)"
    "currentData (snd (loadDashboardData e s)) = Some (length (heap s))"
    "isLoading (snd (loadDashboardData e s)) = False"
    "priceChartData (snd (loadDashboardData e s)) = priceChartData s"
    "lastPrediction (snd (loadDashboardData e s)) = lastPrediction s"
    "pending (snd (loadDashboardData e s)) = pending s"
    "clients (snd (loadDashboardData e s)) = clients s"
    by (simp_all add: load_char)
  have hist: "length (historicalPrices (mockData e)) = 30"
    by (simp add: mockData_def length_generateHistoricalData)
  have lp: "lastPrediction (step (Startup e) s) = lastPrediction s"
    "lastPrediction (step (GetDashboard e) s) = lastPrediction s"
    "lastPrediction (step (WsMessage c ''getDashboardData'' e) s) = lastPrediction s"
    unfolding lastPrediction_step by simp_all
  from fields hist chartHistory_load[OF w, of e] sp lp
    ch[of "Startup e"] ch[of "GetDashboard e"] ch[of "WsMessage c ''getDashboardData'' e"] gen
  show ?thesis by simp
qed

theorem load_frame_witness:
  "chartHistory (run [Startup envHalf, Interval envQuarter] constructed) =
     [Some (Point \<lparr>timestamp = 31000, price = Fin (5025537797075763 / 549755813888)\<rparr>)] \<and>
   chartHistory (snd (loadDashboardData envHalf (run [Startup envHalf, Interval envQuarter] constructed))) =
     [Some (Point \<lparr>timestamp = 31000, price = Fin (5025537797075763 / 549755813888)\<rparr>)] \<and>
   currentData (snd (loadDashboardData envHalf (run [Startup envHalf, Interval envQuarter] constructed))) =
     Some 6"
proof -
  let ?s = "run [Startup envHalf, Interval envQuarter] constructed"
  have s: "?s = simulatePriceUpdate envQuarter started" by (simp add: started_def)
  have c: "currentData started = Some 1" by (simp add: started_eq)
  have d: "deref (heap started) 1 = Some (Snapshot (mockData envHalf))"
    by (simp add: started_eq deref_def)
  have w: "wf started" unfolding started_def by (rule wf_reachable)
  have "chartHistory started = []"
    by (simp add: started_eq chartHistory_def chartOf_def elements_def deref_def)
  moreover have "tickPoint envQuarter (mockData envHalf) =
      \<lparr>timestamp = 31000, price = Fin (5025537797075763 / 549755813888)\<rparr>"
    by (simp add: tickPoint_def tick_quarter(1)[unfolded tickSnapshot_fields(1)])
      (simp add: envQuarter_def)
  ultimately have 1: "chartHistory ?s =
      [Some (Point \<lparr>timestamp = 31000, price = Fin (5025537797075763 / 549755813888)\<rparr>)]"
    unfolding s using chartHistory_tick[OF w, of envQuarter]
    by (simp add: tickOf_Some[OF c d] appendPoint_def fifo_def)
  have 2: "length (heap ?s) = 6"
    unfolding s by (simp only: heap_tick(1)[OF c d] length_tickStore') (simp add: started_eq)
  from load_frame[where ops = "[Startup envHalf, Interval envQuarter]" and e = envHalf, OF refl]
  have "chartHistory (snd (loadDashboardData envHalf ?s)) = chartHistory ?s"
    "currentData (snd (loadDashboardData envHalf ?s)) = Some (length (heap ?s))"
    by blast+
  with 1 2 show ?thesis by simp
qed

text \<open>
  C8. A socket that connects in a state the server can reach has received nothing before.
  With no snapshot the connection sends nothing. With a snapshot it sends one message, to
  the new socket: \<^verbatim>\<open>initialData\<close> with the snapshot \<^verbatim>\<open>currentData\<close> points to.
  Whatever callbacks follow, what the socket receives afterwards comes after that message
  and holds no further \<^verbatim>\<open>initialData\<close>.
\<close>

theorem initialData_on_connect:
  assumes "s = run ops constructed"
  shows "inbox (nextClient s) (trace s) = [] \<and>
    clients (onConnection s) = clients s @ [\<lparr>cid = nextClient s, readyState = OPEN\<rparr>] \<and>
    (currentData s = None \<longrightarrow> trace (onConnection s) = trace s) \<and>
    (\<forall>a. currentData s = Some a \<longrightarrow>
       (\<exists>d. deref (heap s) a = Some (Snapshot d) \<and>
            trace (onConnection s) =
              trace s @ [Send (nextClient s) (Message ''initialData'' (JSnapshot d))])) \<and>
    (\<exists>rest. inbox (nextClient s) (trace (run later (onConnection s))) =
              inbox (nextClient s) (trace (onConnection s)) @ rest \<and>
            ''initialData'' \<notin> set (map mtype rest))"
proof (intro conjI allI impI)
  show "inbox (nextClient s) (trace s) = []" unfolding assms by (rule fresh_reachable)
  show "clients (onConnection s) = clients s @ [\<lparr>cid = nextClient s, readyState = OPEN\<rparr>]"
    by (simp add: onConnection_fields)
  show "trace (onConnection s) = trace s" if "currentData s = None"
    using that by (simp add: trace_onConnection)
  show "\<exists>d. deref (heap s) a = Some (Snapshot d) \<and>
            trace (onConnection s) =
              trace s @ [Send (nextClient s) (Message ''initialData'' (JSnapshot d))]"
    if a: "currentData s = Some a" for a
  proof -
    have "wf s" unfolding assms by (rule wf_reachable)
    then obtain d where d: "deref (heap s) a = Some (Snapshot d)" using a by (rule wf_snapshot)
    then have "stringify (heap s) a = JSnapshot d"
      by (simp add: stringify_def stringifyElement_def)
    then show ?thesis using a d by (simp add: trace_onConnection)
  qed
  have "nextClient s < nextClient (onConnection s)" by (simp add: onConnection_fields)
  then show "\<exists>rest. inbox (nextClient s) (trace (run later (onConnection s))) =
              inbox (nextClient s) (trace (onConnection s)) @ rest \<and>
            ''initialData'' \<notin> set (map mtype rest)"
    by (rule later_run)
qed

theorem initialData_on_connect_witness:
  "currentData started = Some 1 \<and>
   trace (onConnection started) =
     trace started @ [Send 0 (Message ''initialData'' (JSnapshot (mockData envHalf)))] \<and>
   currentData constructed = None \<and>
   trace (onConnection constructed) = trace constructed \<and>
   inbox 0 (trace (run [Interval envQuarter, Connection] (onConnection started))) =
     [Message ''initialData'' (JSnapshot (mockData envHalf)),
      Message ''priceUpdate'' (JPriceData (tickPayload envQuarter (mockData envHalf))),
      Message ''chartUpdate'' (JArray [JPoint (tickPoint envQuarter (mockData envHalf))])]"
proof -
  have s: "started = run [Startup envHalf] constructed" by (simp add: started_def)
  have c: "currentData started = Some 1" by (simp add: started_eq)
  have d: "deref (heap started) 1 = Some (Snapshot (mockData envHalf))"
    by (simp add: started_eq deref_def)
  have n: "nextClient started = 0" by (simp add: started_eq)
  from initialData_on_connect[OF s] c obtain d' where
    "deref (heap started) 1 = Some (Snapshot d')"
    "trace (onConnection started) =
       trace started @ [Send (nextClient started) (Message ''initialData'' (JSnapshot d'))]"
    by blast
  with d n have 1: "trace (onConnection started) =
     trace started @ [Send 0 (Message ''initialData'' (JSnapshot (mockData envHalf)))]" by simp
  have e: "constructed = run [] constructed" by simp
  have cn: "currentData constructed = None" by (simp add: constructed_def)
  from initialData_on_connect[OF e] cn
  have 2: "trace (onConnection constructed) = trace constructed" by blast
  have 3: "inbox 0 (trace (run [Interval envQuarter, Connection] (onConnection started))) =
     [Message ''initialData'' (JSnapshot (mockData envHalf)),
      Message ''priceUpdate'' (JPriceData (tickPayload envQuarter (mockData envHalf))),
      Message ''chartUpdate'' (JArray [JPoint (tickPoint envQuarter (mockData envHalf))])]"
    by (simp add: started_eq onConnection_def Let_def simulatePriceUpdate_def deref_def alloc_def
        push_def shift_def slice_def elements_def emit_def broadcast_def sends_def stringify_def
        stringifyElement_def tickPayload_def tickPoint_def tickSnapshot_def delta_def)
  from c 1 cn 2 3 show ?thesis by (intro conjI)
qed

text \<open>
  C9, as stated, fails: after the load at start-up the listener of \<^verbatim>\<open>dataLoaded\<close> has been
  handed address 1, which is the address in \<^verbatim>\<open>currentData\<close>; a write through it changes
  the dashboard's current snapshot.
\<close>

theorem dataLoaded_payload_is_currentData:
  "emitted (trace started) = [DataLoaded 1] \<and>
   currentData started = Some 1 \<and>
   ownedByStore started 1 \<and>
   currentSnapshot started = Some (Snapshot (mockData envHalf)) \<and>
   currentSnapshot (assign 1 (Snapshot ((mockData envHalf)\<lparr>currentPrice := Fin 0\<rparr>)) started) =
     Some (Snapshot ((mockData envHalf)\<lparr>currentPrice := Fin 0\<rparr>)) \<and>
   storeView (assign 1 (Snapshot ((mockData envHalf)\<lparr>currentPrice := Fin 0\<rparr>)) started) \<noteq>
     storeView started"
  by (simp add: started_eq ownedByStore_def currentSnapshot_def assign_def deref_def storeView_def
      mockData_def lit_price)

text \<open>
  C9, amended. In a state the server can reach: the payload of \<^verbatim>\<open>priceUpdate\<close> is a new
  object and the payload of \<^verbatim>\<open>chartUpdate\<close> is a new array, neither is an address the
  dashboard holds, and a write to either leaves the dashboard's snapshot, prediction and
  chart history as they are; the new array has the entries of the chart array, the same
  point objects. The payload of \<^verbatim>\<open>dataLoaded\<close> is the object \<^verbatim>\<open>currentData\<close> points to,
  and the payload of \<^verbatim>\<open>predictionComplete\<close> is the object \<^verbatim>\<open>lastPrediction\<close> points
  to.
\<close>

theorem payload_references:
  assumes "s = run ops constructed"
  shows "emitted (trace (snd (loadDashboardData e s))) =
      emitted (trace s) @ [DataLoaded (fst (loadDashboardData e s))] \<and>
    currentData (snd (loadDashboardData e s)) = Some (fst (loadDashboardData e s)) \<and>
    ownedByStore (snd (loadDashboardData e s)) (fst (loadDashboardData e s)) \<and>
    (pending s \<noteq> [] \<longrightarrow>
       emitted (trace (timeout e s)) = emitted (trace s) @ [PredictionComplete (length (heap s))] \<and>
       lastPrediction (timeout e s) = Some (length (heap s)) \<and>
       ownedByStore (timeout e s) (length (heap s))) \<and>
    (currentData s \<noteq> None \<longrightarrow>
       (\<exists>ua ca.
          emitted (trace (simulatePriceUpdate e s)) = emitted (trace s) @ [PriceUpdate ua, ChartUpdate ca] \<and>
          \<not> ownedByStore (simulatePriceUpdate e s) ua \<and>
          \<not> ownedByStore (simulatePriceUpdate e s) ca \<and>
          (\<forall>ob. storeView (assign ua ob (simulatePriceUpdate e s)) = storeView (simulatePriceUpdate e s)) \<and>
          (\<forall>ob. storeView (assign ca ob (simulatePriceUpdate e s)) = storeView (simulatePriceUpdate e s)) \<and>
          elements (heap (simulatePriceUpdate e s)) ca =
            elements (heap (simulatePriceUpdate e s)) (priceChartData (simulatePriceUpdate e s))))"
proof (intro conjI impI)
  show "emitted (trace (snd (loadDashboardData e s))) =
      emitted (trace s) @ [DataLoaded (fst (loadDashboardData e s))]"
    by (simp add: emitted_load) (simp add: load_char)
  show "currentData (snd (loadDashboardData e s)) = Some (fst (loadDashboardData e s))"
    by (simp add: load_char)
  then show "ownedByStore (snd (loadDashboardData e s)) (fst (loadDashboardData e s))"
    by (simp add: ownedByStore_def)
next
  assume p: "pending s \<noteq> []"
  then obtain k ks where ks: "pending s = k # ks" by (cases "pending s") auto
  show "emitted (trace (timeout e s)) = emitted (trace s) @ [PredictionComplete (length (heap s))]"
    using ks by (simp add: emitted_timeout)
  show l: "lastPrediction (timeout e s) = Some (length (heap s))"
    using ks by (simp add: lastPrediction_timeout)
  then show "ownedByStore (timeout e s) (length (heap s))"
    by (simp add: ownedByStore_def)
next
  assume "currentData s \<noteq> None"
  then obtain a where a: "currentData s = Some a" by auto
  have w: "wf s" unfolding assms by (rule wf_reachable)
  then obtain d where d: "deref (heap s) a = Some (Snapshot d)" using a by (rule wf_snapshot)
  let ?s' = "simulatePriceUpdate e s"
  let ?ua = "Suc (Suc (length (heap s)))"
  let ?ca = "Suc (Suc (Suc (length (heap s))))"
  have c: "priceChartData s < length (heap s)"
    using w unfolding wf_def by (rule wfStore_chart_less)
  have ev: "emitted (trace ?s') = emitted (trace s) @ [PriceUpdate ?ua, ChartUpdate ?ca]"
    using a d by (simp add: emitted_tick currentSnapshot_def)
  have nu: "\<not> ownedByStore ?s' ?ua" using w a d by (rule fresh_not_owned_tick) simp
  have nc: "\<not> ownedByStore ?s' ?ca" using w a d by (rule fresh_not_owned_tick) simp
  have "elements (heap ?s') ?ca =
      fifo (elements (heap s) (priceChartData s) @ [Suc (length (heap s))])"
    using c by (simp add: heap_tick(1)[OF a d] elements_def deref_tickStore'_new(4))
  moreover have "elements (heap ?s') (priceChartData ?s') =
      fifo (elements (heap s) (priceChartData s) @ [Suc (length (heap s))])"
    using c by (simp add: heap_tick(1,2)[OF a d] elements_tickStore')
  ultimately have el: "elements (heap ?s') ?ca = elements (heap ?s') (priceChartData ?s')"
    by simp
  show "\<exists>ua ca.
          emitted (trace ?s') = emitted (trace s) @ [PriceUpdate ua, ChartUpdate ca] \<and>
          \<not> ownedByStore ?s' ua \<and> \<not> ownedByStore ?s' ca \<and>
          (\<forall>ob. storeView (assign ua ob ?s') = storeView ?s') \<and>
          (\<forall>ob. storeView (assign ca ob ?s') = storeView ?s') \<and>
          elements (heap ?s') ca = elements (heap ?s') (priceChartData ?s')"
    using ev nu nc el storeView_assign[OF nu] storeView_assign[OF nc] by blast
qed

theorem payload_references_witness:
  "currentData started \<noteq> None \<and>
   emitted (trace (simulatePriceUpdate envQuarter started)) =
     [DataLoaded 1, PriceUpdate 4, ChartUpdate 5] \<and>
   \<not> ownedByStore (simulatePriceUpdate envQuarter started) 4 \<and>
   \<not> ownedByStore (simulatePriceUpdate envQuarter started) 5 \<and>
   pending (postPredict started) \<noteq> [] \<and>
   emitted (trace (timeout envHalf (postPredict started))) =
     [DataLoaded 1, PredictionStarted, PredictionComplete 2] \<and>
   lastPrediction (timeout envHalf (postPredict started)) = Some 2"
proof -
  have s: "started = run [Startup envHalf] constructed" by (simp add: started_def)
  have c: "currentData started \<noteq> None" by (simp add: started_eq)
  have ev: "emitted (trace (simulatePriceUpdate envQuarter started)) =
      [DataLoaded 1, PriceUpdate 4, ChartUpdate 5]"
    by (simp add: emitted_tick) (simp add: started_eq currentSnapshot_def deref_def)
  from payload_references[OF s, of envQuarter] c obtain ua ca where
    "emitted (trace (simulatePriceUpdate envQuarter started)) =
       emitted (trace started) @ [PriceUpdate ua, ChartUpdate ca]"
    "\<not> ownedByStore (simulatePriceUpdate envQuarter started) ua"
    "\<not> ownedByStore (simulatePriceUpdate envQuarter started) ca"
    by blast
  with ev have 1: "\<not> ownedByStore (simulatePriceUpdate envQuarter started) 4"
    "\<not> ownedByStore (simulatePriceUpdate envQuarter started) 5"
    by (simp_all add: started_eq)
  have t: "postPredict started = run [Startup envHalf, PostPredict] constructed"
    by (simp add: started_def)
  have pe: "postPredict started = started\<lparr>isLoading := True, pending := [Responding],
      trace := [Emit (DataLoaded 1), Emit PredictionStarted]\<rparr>"
    by (simp add: postPredict_def runPrediction_def emit_def started_eq)
  have p: "pending (postPredict started) \<noteq> []" by (simp add: pe)
  from payload_references[OF t, of envHalf] p
  have "emitted (trace (timeout envHalf (postPredict started))) =
      emitted (trace (postPredict started)) @ [PredictionComplete (length (heap (postPredict started)))]"
    "lastPrediction (timeout envHalf (postPredict started)) = Some (length (heap (postPredict started)))"
    by blast+
  then have 2: "emitted (trace (timeout envHalf (postPredict started))) =
     [DataLoaded 1, PredictionStarted, PredictionComplete 2]"
    "lastPrediction (timeout envHalf (postPredict started)) = Some 2"
    by (simp_all add: pe) (simp_all add: started_eq)
  from c ev 1 p 2 show ?thesis by (intro conjI)
qed

text \<open>
  C2. The flag does not keep a load out: with a prediction in flight, a request for the
  dashboard data loads all the same and clears the flag, and the next request for a
  prediction starts a second cycle while the first timer is still pending.
\<close>

theorem load_clears_flag_of_running_prediction:
  "isLoading (run [Startup envHalf, PostPredict] constructed) \<and>
   pending (run [Startup envHalf, PostPredict] constructed) = [Responding] \<and>
   emitted (trace (run [Startup envHalf, PostPredict, GetDashboard envHalf] constructed)) =
     [DataLoaded 1, PredictionStarted, DataLoaded 2] \<and>
   \<not> isLoading (run [Startup envHalf, PostPredict, GetDashboard envHalf] constructed) \<and>
   pending (run [Startup envHalf, PostPredict, GetDashboard envHalf] constructed) = [Responding] \<and>
   emitted (trace (run [Startup envHalf, PostPredict, GetDashboard envHalf, PostPredict] constructed)) =
     [DataLoaded 1, PredictionStarted, DataLoaded 2, PredictionStarted] \<and>
   pending (run [Startup envHalf, PostPredict, GetDashboard envHalf, PostPredict] constructed) =
     [Responding, Responding]"
  by (simp add: constructed_def load_char postPredict_def runPrediction_def emit_def
      getDashboard_def respond_def sends_def)

text \<open>
  C4. When both raw probability draws are 0 their sum is 0, the two quotients are NaN
  and the prediction that is stored and published has the strings \<^verbatim>\<open>NaN\<close> for both
  probabilities.
\<close>

theorem probabilities_of_zero_draws:
  "validRandom envZero \<and>
   probabilities (newPrediction envZero) = \<lparr>up = StrV NaNStr, down = StrV NaNStr\<rparr> \<and>
   storedPrediction (run [Startup envHalf, PostPredict, Timeout envZero] constructed) =
     Some (Prediction (newPrediction envZero))"
proof -
  have 1: "validRandom envZero" by (simp add: validRandom_def envZero_def rnd_def)
  have 2: "probabilities (newPrediction envZero) = \<lparr>up = StrV NaNStr, down = StrV NaNStr\<rparr>"
    by (simp add: newPrediction_def envZero_def rnd_def Let_def)
  have 3: "storedPrediction (run [Startup envHalf, PostPredict, Timeout envZero] constructed) =
     Some (Prediction (newPrediction envZero))"
    by (simp add: constructed_def load_char postPredict_def runPrediction_def emit_def
        timeout_def simulatePrediction_def alloc_def broadcast_def sends_def respond_def
        storedPrediction_def deref_def)
  from 1 2 3 show ?thesis by (intro conjI)
qed

text \<open>
  C6. On an idle dashboard \<^verbatim>\<open>POST /api/predict\<close> has not responded when its callback
  ends: the handler awaits the prediction. The response is sent when the timer has fired,
  after \<^verbatim>\<open>predictionComplete\<close>.
\<close>

theorem predict_responds_after_completion:
  "responses (trace (run [Startup envHalf, PostPredict] constructed)) = [] \<and>
   pending (run [Startup envHalf, PostPredict] constructed) = [Responding] \<and>
   trace (run [Startup envHalf, PostPredict, Timeout envHalf] constructed) =
     [Emit (DataLoaded 1), Emit PredictionStarted, Emit (PredictionComplete 2),
      Respond 200 (JObject [(''message'', ''Prediction started'')])]"
  by (simp add: constructed_def load_char postPredict_def runPrediction_def emit_def
      timeout_def simulatePrediction_def alloc_def broadcast_def sends_def respond_def)

end
